theory Spec2Isabelle
  imports Main "HOL-Library.Sublist"
begin

section \<open>The agent's API client: lookup with exponential backoff, and heartbeat\<close>

text \<open>
  A shallow embedding of \<^verbatim>\<open>ironic_python_agent/ironic_api_client.py\<close> (class
  \<^verbatim>\<open>APIClient\<close>). Python exceptions are values, the two mutable lists that
  \<^verbatim>\<open>lookup_node\<close> hands to \<^verbatim>\<open>_do_lookup\<close> are a record threaded through the
  calls, and everything the client does to its surroundings (HTTP requests sent, warnings
  logged, time slept) is collected in a record of its own. Leading underscores of the
  Python names are dropped.
\<close>

subsection \<open>JSON values and the Python operators used on them\<close>

text \<open>
  What \<^verbatim>\<open>json.loads\<close> returns. Numbers are integers here; a float behaves like an
  integer under the two operators below. A dict is an association list, read by its
  first binding of a key.
\<close>

datatype json =
    JNull
  | JBool bool
  | JNum int
  | JStr string
  | JList "json list"
  | JDict "(string \<times> json) list"

datatype exn =
    TypeError
  | KeyError
  | IndexError
  | LookupNodeError string
  | HeartbeatError string

text \<open>
  \<^verbatim>\<open>k in c\<close> for a string \<open>k\<close>: key membership on a dict, element membership on a
  list, substring test on a string, and \<^verbatim>\<open>TypeError\<close> on a number, a boolean or
  \<^verbatim>\<open>None\<close> (not iterable).
\<close>

fun contains :: "string \<Rightarrow> json \<Rightarrow> exn + bool" where
  "contains k (JDict kvs) = Inr (k \<in> set (map fst kvs))"
| "contains k (JList xs) = Inr (JStr k \<in> set xs)"
| "contains k (JStr s) = Inr (sublist k s)"
| "contains k (JNum n) = Inl TypeError"
| "contains k (JBool b) = Inl TypeError"
| "contains k JNull = Inl TypeError"

text \<open>
  \<^verbatim>\<open>c[k]\<close> for a string \<open>k\<close>: the value on a dict (\<^verbatim>\<open>KeyError\<close> when absent);
  \<^verbatim>\<open>TypeError\<close> on everything else (a list and a string take integer indices only, the
  rest cannot be subscripted).
\<close>

fun getitem :: "json \<Rightarrow> string \<Rightarrow> exn + json" where
  "getitem (JDict kvs) k = (case map_of kvs k of None \<Rightarrow> Inl KeyError | Some v \<Rightarrow> Inr v)"
| "getitem (JList xs) k = Inl TypeError"
| "getitem (JStr s) k = Inl TypeError"
| "getitem (JNum n) k = Inl TypeError"
| "getitem (JBool b) k = Inl TypeError"
| "getitem JNull k = Inl TypeError"

subsection \<open>Transport, log and clock\<close>

text \<open>Timeouts and intervals are Python numbers; they are integers here.\<close>

type_synonym seconds = int

record http_request =
  request_method :: string
  url :: string
  request_headers :: "(string \<times> string) list"
  data :: "json option"

text \<open>
  A response as the client reads it: \<open>content\<close> is the outcome of
  \<^verbatim>\<open>json.loads(response.content)\<close>, \<open>Inl\<close> the message of the exception it raised.
\<close>

record response =
  status_code :: int
  headers :: "string \<rightharpoonup> string"
  content :: "string + json"

text \<open>
  \<^verbatim>\<open>session.request\<close> either raises (the string is \<^verbatim>\<open>str(e)\<close>) or returns a response.
  The transport is any function of the number of requests sent before and of the request.
\<close>

datatype transport_result = Raises string | Returns response

type_synonym transport = "nat \<Rightarrow> http_request \<Rightarrow> transport_result"

text \<open>One constructor for each \<^verbatim>\<open>self.log.warning\<close> call, holding its argument.\<close>

datatype warning =
    PostFailed string
  | InvalidStatusCode int
  | ErrorDecoding string
  | InvalidNodeData json
  | InvalidHeartbeat json

record world =
  requests :: "http_request list"
  warnings :: "warning list"
  slept :: "seconds list"

definition log_warning :: "warning \<Rightarrow> world \<Rightarrow> world" where
  "log_warning msg w = w\<lparr>warnings := warnings w @ [msg]\<rparr>"

definition sleep :: "seconds \<Rightarrow> world \<Rightarrow> world" where
  "sleep idle w = w\<lparr>slept := slept w @ [idle]\<rparr>"

definition codes_OK :: int where
  "codes_OK = 200"

definition codes_NO_CONTENT :: int where
  "codes_NO_CONTENT = 204"

subsection \<open>The client\<close>

record api_client =
  api_url :: string

definition api_version :: string where
  "api_version = ''v1''"

definition rstrip :: "char \<Rightarrow> string \<Rightarrow> string" where
  "rstrip c s = rev (dropWhile (\<lambda>x. x = c) (rev s))"

definition init :: "string \<Rightarrow> api_client" where
  "init url0 = \<lparr>api_url = rstrip (CHR ''/'') url0\<rparr>"

definition request ::
  "api_client \<Rightarrow> transport \<Rightarrow> string \<Rightarrow> string \<Rightarrow> json option \<Rightarrow> world
    \<Rightarrow> transport_result \<times> world" where
  "request self session meth path payload w =
     (let request_url = api_url self @ path;
          req = \<lparr>request_method = meth, url = request_url,
                 request_headers = [(''Content-Type'', ''application/json''),
                                    (''Accept'', ''application/json'')],
                 data = payload\<rparr>
      in (session (length (requests w)) req, w\<lparr>requests := requests w @ [req]\<rparr>))"

subsection \<open>The retry step\<close>

text \<open>
  The keyword arguments \<^verbatim>\<open>intervals\<close> and \<^verbatim>\<open>total_time\<close>: two lists that every run of
  \<^verbatim>\<open>_do_lookup\<close> mutates; \<open>total_time\<close> is the single cell of the one-element list.
\<close>

record retry_state =
  intervals :: "seconds list"
  total_time :: seconds

text \<open>
  How a run of \<^verbatim>\<open>_do_lookup\<close> ends: it returns the next interval, raises
  \<^verbatim>\<open>LoopingCallDone\<close> (with a \<^verbatim>\<open>retvalue\<close> or without), or raises something else.
\<close>

datatype outcome =
    Return seconds
  | LoopingCallDone "json option"
  | Raise exn

definition next_interval :: "seconds \<Rightarrow> retry_state \<Rightarrow> outcome \<times> retry_state" where
  "next_interval timeout kw =
     (if intervals kw = [] then (Raise IndexError, kw)
      else
        let new_interval = last (intervals kw) * 2
        in if total_time kw + new_interval > timeout then (LoopingCallDone None, kw)
           else (Return new_interval,
                 kw\<lparr>total_time := total_time kw + new_interval,
                    intervals := intervals kw @ [new_interval]\<rparr>))"

text \<open>
  The test \<^verbatim>\<open>'node' not in content or 'uuid' not in content['node']\<close>, evaluated left
  to right with the short cut of \<^verbatim>\<open>or\<close>.
\<close>

definition node_invalid :: "json \<Rightarrow> exn + bool" where
  "node_invalid c =
     (case contains ''node'' c of
        Inl e \<Rightarrow> Inl e
      | Inr False \<Rightarrow> Inr True
      | Inr True \<Rightarrow>
          (case getitem c ''node'' of
             Inl e \<Rightarrow> Inl e
           | Inr node \<Rightarrow>
               (case contains ''uuid'' node of
                  Inl e \<Rightarrow> Inl e
                | Inr b \<Rightarrow> Inr (\<not> b))))"

definition lookup_path :: string where
  "lookup_path = ''/'' @ api_version @ ''/drivers/teeth/vendor_passthru/lookup''"

text \<open>
  What every failure branch of \<^verbatim>\<open>_do_lookup\<close> does: log a warning, then
  \<^verbatim>\<open>return next_interval(timeout, intervals, total_time)\<close>. The call stands outside the
  \<^verbatim>\<open>try\<close> blocks, so what \<^verbatim>\<open>next_interval\<close> raises leaves \<^verbatim>\<open>_do_lookup\<close>.
\<close>

definition retry ::
  "warning \<Rightarrow> seconds \<Rightarrow> retry_state \<Rightarrow> world \<Rightarrow> outcome \<times> retry_state \<times> world" where
  "retry msg timeout kw w =
     (case next_interval timeout kw of (out, kw') \<Rightarrow> (out, kw', log_warning msg w))"

definition do_lookup ::
  "api_client \<Rightarrow> transport \<Rightarrow> json \<Rightarrow> seconds \<Rightarrow> retry_state \<Rightarrow> world
    \<Rightarrow> outcome \<times> retry_state \<times> world" where
  "do_lookup self session hardware_info timeout kw w =
     (case request self session ''POST'' lookup_path
             (Some (JDict [(''hardware'', hardware_info)])) w of
        (Raises e, w1) \<Rightarrow> retry (PostFailed e) timeout kw w1
      | (Returns r, w1) \<Rightarrow>
          if status_code r \<noteq> codes_OK
          then retry (InvalidStatusCode (status_code r)) timeout kw w1
          else
            (case content r of
               Inl e \<Rightarrow> retry (ErrorDecoding e) timeout kw w1
             | Inr c \<Rightarrow>
                 (case node_invalid c of
                    Inl e \<Rightarrow> (Raise e, kw, w1)
                  | Inr True \<Rightarrow> retry (InvalidNodeData c) timeout kw w1
                  | Inr False \<Rightarrow>
                      (case contains ''heartbeat_timeout'' c of
                         Inl e \<Rightarrow> (Raise e, kw, w1)
                       | Inr False \<Rightarrow> retry (InvalidHeartbeat c) timeout kw w1
                       | Inr True \<Rightarrow> (LoopingCallDone (Some c), kw, w1)))))"

subsection \<open>The looping call\<close>

text \<open>
  Modelled from the spec: \<^verbatim>\<open>loopingcall.DynamicLoopingCall\<close> and
  \<^verbatim>\<open>loopingcall.LoopingCallDone\<close> (module
  \<^verbatim>\<open>ironic_python_agent.openstack.common.loopingcall\<close> is not among the sources).
  After the spec's section 4.2: the work function is invoked; when it returns an interval
  the loop sleeps for it and invokes the work function again; when it signals done the
  loop ends with the value, and \<^verbatim>\<open>wait()\<close> hands it over. A done signal without a value
  makes \<^verbatim>\<open>wait()\<close> return \<^verbatim>\<open>True\<close> (the comment in \<^verbatim>\<open>lookup_node\<close>); any other
  exception of the work function ends the loop and comes out of \<^verbatim>\<open>wait()\<close>. The loop
  has no bound of its own, so a run that never ends is the value \<open>None\<close>. The loop
  passes the same keyword arguments to every invocation; \<open>'k\<close> is the state that the
  work function keeps in them.
\<close>

partial_function (option) dynamic_looping_call ::
  "('k \<Rightarrow> world \<Rightarrow> outcome \<times> 'k \<times> world) \<Rightarrow> 'k \<Rightarrow> world
    \<Rightarrow> ((exn + json) \<times> 'k \<times> world) option" where
  "dynamic_looping_call f kw w =
     (case f kw w of
        (Return idle, kw', w') \<Rightarrow> dynamic_looping_call f kw' (sleep idle w')
      | (LoopingCallDone retvalue, kw', w') \<Rightarrow>
          Some (Inr (case retvalue of None \<Rightarrow> JBool True | Some v \<Rightarrow> v), kw', w')
      | (Raise e, kw', w') \<Rightarrow> Some (Inl e, kw', w'))"

text \<open>
  The state in which the loop invokes the work function for the \<open>(n+1)\<close>-th time:
  \<open>n\<close> runs have returned an interval and the loop has slept after each. \<open>None\<close> when
  the loop ended earlier.
\<close>

fun after_retries ::
  "nat \<Rightarrow> ('k \<Rightarrow> world \<Rightarrow> outcome \<times> 'k \<times> world) \<Rightarrow> 'k \<Rightarrow> world
    \<Rightarrow> ('k \<times> world) option" where
  "after_retries 0 f kw w = Some (kw, w)"
| "after_retries (Suc n) f kw w =
     (case f kw w of
        (Return idle, kw', w') \<Rightarrow> after_retries n f kw' (sleep idle w')
      | (LoopingCallDone retvalue, kw', w') \<Rightarrow> None
      | (Raise e, kw', w') \<Rightarrow> None)"

subsection \<open>lookup_node and heartbeat\<close>

definition timer_start_wait ::
  "api_client \<Rightarrow> transport \<Rightarrow> json \<Rightarrow> seconds \<Rightarrow> seconds \<Rightarrow> world
    \<Rightarrow> ((exn + json) \<times> retry_state \<times> world) option" where
  "timer_start_wait self session hardware_info timeout starting_interval w =
     dynamic_looping_call (do_lookup self session hardware_info timeout)
       \<lparr>intervals = [starting_interval], total_time = 0\<rparr> w"

definition lookup_node ::
  "api_client \<Rightarrow> transport \<Rightarrow> json \<Rightarrow> seconds \<Rightarrow> seconds \<Rightarrow> world
    \<Rightarrow> ((exn + json) \<times> world) option" where
  "lookup_node self session hardware_info timeout starting_interval w =
     (case timer_start_wait self session hardware_info timeout starting_interval w of
        None \<Rightarrow> None
      | Some (Inl e, kw, w') \<Rightarrow> Some (Inl e, w')
      | Some (Inr node_content, kw, w') \<Rightarrow>
          if node_content = JBool True
          then Some (Inl (LookupNodeError
                 ''Could not look up node info. Check logs for details.''), w')
          else Some (Inr node_content, w'))"

text \<open>\<^verbatim>\<open>str\<close> of an integer, as the two \<^verbatim>\<open>format\<close> calls of the heartbeat render it.\<close>

fun str_nat :: "nat \<Rightarrow> string" where
  "str_nat n =
     (if n < 10 then [''0123456789'' ! n]
      else str_nat (n div 10) @ [''0123456789'' ! (n mod 10)])"

definition str_int :: "int \<Rightarrow> string" where
  "str_int i = (if i < 0 then CHR ''-'' # str_nat (nat (- i)) else str_nat (nat i))"

definition get_agent_url :: "string \<times> int \<Rightarrow> string" where
  "get_agent_url advertise_address =
     ''http://'' @ fst advertise_address @ '':'' @ str_int (snd advertise_address)"

definition heartbeat_path :: "string \<Rightarrow> string" where
  "heartbeat_path uuid =
     ''/'' @ api_version @ ''/nodes/'' @ uuid @ ''/vendor_passthru/heartbeat''"

text \<open>
  \<^verbatim>\<open>heartbeat\<close>. Python's \<^verbatim>\<open>float\<close> is a parameter: \<open>None\<close> where it raises. The
  address is a pair of host and port.
\<close>

definition heartbeat ::
  "api_client \<Rightarrow> transport \<Rightarrow> (string \<Rightarrow> 'f option) \<Rightarrow> string \<Rightarrow> string \<times> int \<Rightarrow> world
    \<Rightarrow> (exn + 'f) \<times> world" where
  "heartbeat self session float uuid advertise_address w =
     (case request self session ''POST'' (heartbeat_path uuid)
             (Some (JDict [(''agent_url'', JStr (get_agent_url advertise_address))])) w of
        (Raises e, w1) \<Rightarrow> (Inl (HeartbeatError e), w1)
      | (Returns r, w1) \<Rightarrow>
          if status_code r \<noteq> codes_NO_CONTENT
          then (Inl (HeartbeatError (''Invalid status code: '' @ str_int (status_code r))), w1)
          else
            (case headers r ''Heartbeat-Before'' of
               None \<Rightarrow> (Inl (HeartbeatError ''Missing Heartbeat-Before header''), w1)
             | Some h \<Rightarrow>
                 (case float h of
                    None \<Rightarrow> (Inl (HeartbeatError ''Invalid Heartbeat-Before header''), w1)
                  | Some x \<Rightarrow> (Inr x, w1))))"

subsection \<open>The two lists as objects in a store\<close>

text \<open>
  In Python \<^verbatim>\<open>intervals\<close> and \<^verbatim>\<open>total_time\<close> are references to list objects, which
  \<^verbatim>\<open>next_interval\<close> mutates in place. The parameters of \<^verbatim>\<open>_do_lookup\<close> have the
  default values \<^verbatim>\<open>[1]\<close> and \<^verbatim>\<open>[0]\<close>: two list objects made once, when the function is
  defined, and used by every call that leaves the arguments out. Here the store holds
  every list object there is; an address is an index into it, a new object goes to its
  end, and no object is ever removed. \<open>store0\<close> is the store when the class has been
  defined: it holds the two default lists.
\<close>

type_synonym addr = nat

type_synonym store = "seconds list list"

definition default_intervals :: addr where
  "default_intervals = 0"

definition default_total_time :: addr where
  "default_total_time = 1"

definition store0 :: store where
  "store0 = [[1], [0]]"

text \<open>
  \<^verbatim>\<open>next_interval\<close> on the objects at the addresses \<open>iv\<close> (\<^verbatim>\<open>intervals\<close>) and \<open>tt\<close>
  (\<^verbatim>\<open>total_time\<close>), statement by statement.
\<close>

definition next_interval_store :: "seconds \<Rightarrow> addr \<Rightarrow> addr \<Rightarrow> store \<Rightarrow> outcome \<times> store" where
  "next_interval_store timeout iv tt st =
     (if st ! iv = [] then (Raise IndexError, st)
      else
        let new_interval = last (st ! iv) * 2
        in if st ! tt = [] then (Raise IndexError, st)
           else if (st ! tt) ! 0 + new_interval > timeout then (LoopingCallDone None, st)
           else
             let st1 = st[tt := (st ! tt)[0 := (st ! tt) ! 0 + new_interval]];
                 st2 = st1[iv := st1 ! iv @ [new_interval]]
             in (Return new_interval, st2))"

definition retry_store ::
  "warning \<Rightarrow> seconds \<Rightarrow> addr \<Rightarrow> addr \<Rightarrow> store \<Rightarrow> world \<Rightarrow> outcome \<times> store \<times> world" where
  "retry_store msg timeout iv tt st w =
     (case next_interval_store timeout iv tt st of (out, st') \<Rightarrow> (out, st', log_warning msg w))"

text \<open>
  \<^verbatim>\<open>_do_lookup\<close> with its two list parameters: \<open>None\<close> for an argument that the caller
  leaves out, which stands for the default object.
\<close>

definition do_lookup_store ::
  "api_client \<Rightarrow> transport \<Rightarrow> json \<Rightarrow> seconds \<Rightarrow> addr option \<Rightarrow> addr option \<Rightarrow> store \<Rightarrow> world
    \<Rightarrow> outcome \<times> store \<times> world" where
  "do_lookup_store self session hardware_info timeout intervals_arg total_time_arg st w =
     (let iv = (case intervals_arg of None \<Rightarrow> default_intervals | Some a \<Rightarrow> a);
          tt = (case total_time_arg of None \<Rightarrow> default_total_time | Some a \<Rightarrow> a)
      in case request self session ''POST'' lookup_path
                (Some (JDict [(''hardware'', hardware_info)])) w of
           (Raises e, w1) \<Rightarrow> retry_store (PostFailed e) timeout iv tt st w1
         | (Returns r, w1) \<Rightarrow>
             if status_code r \<noteq> codes_OK
             then retry_store (InvalidStatusCode (status_code r)) timeout iv tt st w1
             else
               (case content r of
                  Inl e \<Rightarrow> retry_store (ErrorDecoding e) timeout iv tt st w1
                | Inr c \<Rightarrow>
                    (case node_invalid c of
                       Inl e \<Rightarrow> (Raise e, st, w1)
                     | Inr True \<Rightarrow> retry_store (InvalidNodeData c) timeout iv tt st w1
                     | Inr False \<Rightarrow>
                         (case contains ''heartbeat_timeout'' c of
                            Inl e \<Rightarrow> (Raise e, st, w1)
                          | Inr False \<Rightarrow> retry_store (InvalidHeartbeat c) timeout iv tt st w1
                          | Inr True \<Rightarrow> (LoopingCallDone (Some c), st, w1)))))"

text \<open>
  \<^verbatim>\<open>lookup_node\<close>: the list displays \<^verbatim>\<open>[starting_interval]\<close> and \<^verbatim>\<open>[0]\<close> make two new
  objects, in this order, and the looping call hands the two references to every run of
  \<^verbatim>\<open>_do_lookup\<close>. Nothing that \<^verbatim>\<open>lookup_node\<close> returns refers to them; they stay in the
  store as garbage.
\<close>

definition timer_start_wait_store ::
  "api_client \<Rightarrow> transport \<Rightarrow> json \<Rightarrow> seconds \<Rightarrow> seconds \<Rightarrow> store \<Rightarrow> world
    \<Rightarrow> ((exn + json) \<times> store \<times> world) option" where
  "timer_start_wait_store self session hardware_info timeout starting_interval st w =
     (let iv = length st;
          st1 = st @ [[starting_interval]];
          tt = length st1;
          st2 = st1 @ [[0]]
      in dynamic_looping_call
           (do_lookup_store self session hardware_info timeout (Some iv) (Some tt)) st2 w)"

definition lookup_node_store ::
  "api_client \<Rightarrow> transport \<Rightarrow> json \<Rightarrow> seconds \<Rightarrow> seconds \<Rightarrow> store \<Rightarrow> world
    \<Rightarrow> ((exn + json) \<times> store \<times> world) option" where
  "lookup_node_store self session hardware_info timeout starting_interval st w =
     (case timer_start_wait_store self session hardware_info timeout starting_interval st w of
        None \<Rightarrow> None
      | Some (Inl e, st', w') \<Rightarrow> Some (Inl e, st', w')
      | Some (Inr node_content, st', w') \<Rightarrow>
          if node_content = JBool True
          then Some (Inl (LookupNodeError
                 ''Could not look up node info. Check logs for details.''), st', w')
          else Some (Inr node_content, st', w'))"

text \<open>
  The store in which the lists at \<open>iv\<close> and \<open>tt\<close> hold the retry state \<open>kw\<close> and every
  other object is as in \<open>base\<close>.
\<close>

definition put :: "addr \<Rightarrow> addr \<Rightarrow> retry_state \<Rightarrow> store \<Rightarrow> store" where
  "put iv tt kw base = base[iv := intervals kw, tt := [total_time kw]]"

subsection \<open>Concrete inputs\<close>

text \<open>
  Inputs on which the definitions are evaluated: a client, a world in which nothing has
  happened yet, the request that \<^verbatim>\<open>_do_lookup\<close> sends, and transports that give the same
  answer to every request.
\<close>

definition client0 :: api_client where
  "client0 = init ''http://ironic/''"

definition world0 :: world where
  "world0 = \<lparr>requests = [], warnings = [], slept = []\<rparr>"

definition lookup_request :: "api_client \<Rightarrow> json \<Rightarrow> http_request" where
  "lookup_request self hardware_info =
     \<lparr>request_method = ''POST'', url = api_url self @ lookup_path,
      request_headers = [(''Content-Type'', ''application/json''),
                         (''Accept'', ''application/json'')],
      data = Some (JDict [(''hardware'', hardware_info)])\<rparr>"

definition answering :: "response \<Rightarrow> transport" where
  "answering r n req = Returns r"

definition status_only :: "int \<Rightarrow> response" where
  "status_only code =
     \<lparr>status_code = code, headers = Map.empty,
      content = Inl ''No JSON object could be decoded''\<rparr>"

definition ok_with :: "json \<Rightarrow> response" where
  "ok_with body = \<lparr>status_code = 200, headers = Map.empty, content = Inr body\<rparr>"

definition valid_body :: json where
  "valid_body =
     JDict [(''node'', JDict [(''uuid'', JStr ''abc'')]), (''heartbeat_timeout'', JNum 300)]"

definition fail_then_ok :: transport where
  "fail_then_ok n req = (if n = 0 then Returns (status_only 500) else Returns (ok_with valid_body))"

text \<open>A transport that fails on every other request, and the request that \<^verbatim>\<open>heartbeat\<close> sends.\<close>

definition alternating :: transport where
  "alternating n req = (if even n then Returns (status_only 500) else Returns (ok_with valid_body))"

definition heartbeat_request :: "api_client \<Rightarrow> string \<Rightarrow> string \<times> int \<Rightarrow> http_request" where
  "heartbeat_request self uuid advertise_address =
     \<lparr>request_method = ''POST'', url = api_url self @ heartbeat_path uuid,
      request_headers = [(''Content-Type'', ''application/json''),
                         (''Accept'', ''application/json'')],
      data = Some (JDict [(''agent_url'', JStr (get_agent_url advertise_address))])\<rparr>"

text \<open>Bodies that decode to JSON but are not what the lookup expects.\<close>

definition number_body :: json where
  "number_body = JNum 5"

definition string_node_body :: json where
  "string_node_body = JDict [(''node'', JStr ''uuid''), (''heartbeat_timeout'', JNum 300)]"

text \<open>A response to a heartbeat: a status and at most the one header.\<close>

definition heartbeat_response :: "int \<Rightarrow> string option \<Rightarrow> response" where
  "heartbeat_response code hb =
     \<lparr>status_code = code, headers = (\<lambda>k. if k = ''Heartbeat-Before'' then hb else None),
      content = Inl ''No JSON object could be decoded''\<rparr>"

text \<open>
  The part of Python's \<^verbatim>\<open>float\<close> that the examples need: \<^verbatim>\<open>float('10.5')\<close> is \<open>10.5\<close>,
  written as the pair of numerator and denominator, and \<^verbatim>\<open>float('notanumber')\<close> raises.
\<close>

definition float_example :: "string \<Rightarrow> (int \<times> int) option" where
  "float_example h = (if h = ''10.5'' then Some (21, 2) else None)"

subsection \<open>Worlds that continue a history\<close>

text \<open>
  \<open>append_world w d\<close> is the world \<open>w\<close> followed by what \<open>d\<close> records; \<open>shifted session k\<close>
  is the transport as it answers once \<open>k\<close> requests have been sent.
\<close>

definition append_world :: "world \<Rightarrow> world \<Rightarrow> world" where
  "append_world w d =
     \<lparr>requests = requests w @ requests d, warnings = warnings w @ warnings d,
      slept = slept w @ slept d\<rparr>"

definition shifted :: "transport \<Rightarrow> nat \<Rightarrow> transport" where
  "shifted session k i = session (k + i)"

section \<open>Properties of the loop and of the retry step\<close>

subsection \<open>Unfolding the looping call\<close>

lemma dlc_Return:
  "f kw w = (Return idle, kw', w') \<Longrightarrow>
   dynamic_looping_call f kw w = dynamic_looping_call f kw' (sleep idle w')"
  by (subst dynamic_looping_call.simps) simp

lemma dlc_Done:
  "f kw w = (LoopingCallDone rv, kw', w') \<Longrightarrow>
   dynamic_looping_call f kw w =
     Some (Inr (case rv of None \<Rightarrow> JBool True | Some v \<Rightarrow> v), kw', w')"
  by (subst dynamic_looping_call.simps) simp

lemma dlc_Raise:
  "f kw w = (Raise e, kw', w') \<Longrightarrow> dynamic_looping_call f kw w = Some (Inl e, kw', w')"
  by (subst dynamic_looping_call.simps) simp

lemma dlc_after_retries:
  "after_retries n f kw w = Some (kw', w') \<Longrightarrow>
   dynamic_looping_call f kw w = dynamic_looping_call f kw' w'"
proof (induction n arbitrary: kw w)
  case 0
  then show ?case by simp
next
  case (Suc n)
  obtain out kw1 w1 where step: "f kw w = (out, kw1, w1)"
    by (cases "f kw w") auto
  with Suc.prems obtain idle where out: "out = Return idle"
    by (cases out) auto
  with Suc.prems step have "after_retries n f kw1 (sleep idle w1) = Some (kw', w')"
    by simp
  then have "dynamic_looping_call f kw1 (sleep idle w1) = dynamic_looping_call f kw' w'"
    by (rule Suc.IH)
  with step out show ?case
    by (simp add: dlc_Return)
qed

lemma dlc_SomeD:
  assumes "dynamic_looping_call f kw w = Some y"
  shows "\<exists>n kw1 w1. after_retries n f kw w = Some (kw1, w1) \<and>
           ((\<exists>rv. f kw1 w1 = (LoopingCallDone rv, snd y) \<and>
                  fst y = Inr (case rv of None \<Rightarrow> JBool True | Some v \<Rightarrow> v)) \<or>
            (\<exists>e. f kw1 w1 = (Raise e, snd y) \<and> fst y = Inl e))"
  using assms
proof (induction f kw w y rule: dynamic_looping_call.raw_induct)
  case (1 dlc f kw w y)
  obtain out kw1 w1 where step: "f kw w = (out, kw1, w1)"
    by (cases "f kw w") auto
  show ?case
  proof (cases out)
    case (Return idle)
    with 1(2) step have a: "dlc f kw1 (sleep idle w1) = Some y"
      by simp
    from 1(3) step Return have b: "dynamic_looping_call f kw1 (sleep idle w1) = Some y"
      by (simp add: dlc_Return)
    from 1(1)[OF a b] obtain n kw2 w2 where
      n: "after_retries n f kw1 (sleep idle w1) = Some (kw2, w2)" and
      fin: "(\<exists>rv. f kw2 w2 = (LoopingCallDone rv, snd y) \<and>
                  fst y = Inr (case rv of None \<Rightarrow> JBool True | Some v \<Rightarrow> v)) \<or>
            (\<exists>e. f kw2 w2 = (Raise e, snd y) \<and> fst y = Inl e)"
      by blast
    from n step Return have "after_retries (Suc n) f kw w = Some (kw2, w2)"
      by simp
    with fin show ?thesis
      by blast
  next
    case (LoopingCallDone rv)
    with 1(2) step have "y = (Inr (case rv of None \<Rightarrow> JBool True | Some v \<Rightarrow> v), kw1, w1)"
      by simp
    with step LoopingCallDone have "after_retries 0 f kw w = Some (kw, w) \<and>
       f kw w = (LoopingCallDone rv, snd y) \<and> fst y = Inr (case rv of None \<Rightarrow> JBool True | Some v \<Rightarrow> v)"
      by simp
    then show ?thesis
      by blast
  next
    case (Raise e)
    with 1(2) step have "y = (Inl e, kw1, w1)"
      by simp
    with step Raise have "after_retries 0 f kw w = Some (kw, w) \<and>
       f kw w = (Raise e, snd y) \<and> fst y = Inl e"
      by simp
    then show ?thesis
      by blast
  qed
qed (rule assms)

lemma request_world:
  "request self session meth path payload w = (res, w') \<Longrightarrow>
   \<exists>req. res = session (length (requests w)) req \<and> w' = w\<lparr>requests := requests w @ [req]\<rparr>"
  by (auto simp: request_def Let_def)

lemma node_invalid_False_dict: "node_invalid c = Inr False \<Longrightarrow> \<exists>kvs. c = JDict kvs"
  by (cases c) (auto simp: node_invalid_def split: sum.splits bool.splits)

lemma retry_world:
  "retry msg timeout kw w = (out, kw', w') \<Longrightarrow>
   (out, kw') = next_interval timeout kw \<and> w' = log_warning msg w"
  by (auto simp: retry_def split: prod.splits)

lemma do_lookup_cases:
  assumes "do_lookup self session hardware_info timeout kw w = (out, kw', w')"
  shows "\<exists>req. requests w' = requests w @ [req] \<and> slept w' = slept w \<and>
          ((\<exists>msg. warnings w' = warnings w @ [msg] \<and> (out, kw') = next_interval timeout kw) \<or>
           (warnings w' = warnings w \<and> kw' = kw \<and>
             ((\<exists>kvs. out = LoopingCallDone (Some (JDict kvs))) \<or> (\<exists>e. out = Raise e))))"
proof -
  obtain res w1 where rq: "request self session ''POST'' lookup_path
             (Some (JDict [(''hardware'', hardware_info)])) w = (res, w1)"
    by (cases "request self session ''POST'' lookup_path
             (Some (JDict [(''hardware'', hardware_info)])) w") auto
  from request_world[OF rq] obtain req where
    w1: "w1 = w\<lparr>requests := requests w @ [req]\<rparr>"
    by blast
  from assms rq show ?thesis
    unfolding do_lookup_def w1
    by (auto simp: log_warning_def split: transport_result.splits if_splits sum.splits bool.splits
        dest!: retry_world node_invalid_False_dict)
qed


lemma next_interval_Return:
  "next_interval timeout kw = (Return idle, kw') \<Longrightarrow>
   intervals kw \<noteq> [] \<and> idle = last (intervals kw) * 2 \<and>
   total_time kw + idle \<le> timeout \<and>
   kw' = \<lparr>intervals = intervals kw @ [idle], total_time = total_time kw + idle\<rparr>"
  by (auto simp: next_interval_def Let_def split: if_splits)

lemma next_interval_Done:
  "next_interval timeout kw = (LoopingCallDone rv, kw') \<Longrightarrow>
   intervals kw \<noteq> [] \<and> rv = None \<and> kw' = kw \<and>
   total_time kw + last (intervals kw) * 2 > timeout"
  by (auto simp: next_interval_def Let_def split: if_splits)

lemma do_lookup_Return:
  assumes "do_lookup self session hardware_info timeout kw w = (Return idle, kw', w')"
  shows "intervals kw \<noteq> [] \<and> idle = last (intervals kw) * 2 \<and>
         total_time kw + idle \<le> timeout \<and>
         kw' = \<lparr>intervals = intervals kw @ [idle], total_time = total_time kw + idle\<rparr> \<and>
         length (requests w') = Suc (length (requests w)) \<and>
         length (warnings w') = Suc (length (warnings w)) \<and>
         slept w' = slept w"
proof -
  from do_lookup_cases[OF assms] obtain req msg where
    "requests w' = requests w @ [req]" "slept w' = slept w"
    "warnings w' = warnings w @ [msg]" "next_interval timeout kw = (Return idle, kw')"
    by auto
  then show ?thesis
    by (auto dest: next_interval_Return)
qed

lemma after_retries_do_lookup:
  assumes "after_retries n (do_lookup self session hardware_info timeout) kw w = Some (kw', w')"
    and "intervals kw \<noteq> []"
  shows "intervals kw' = intervals kw @ map (\<lambda>k. last (intervals kw) * 2 ^ Suc k) [0..<n] \<and>
         total_time kw' = total_time kw + sum_list (map (\<lambda>k. last (intervals kw) * 2 ^ Suc k) [0..<n]) \<and>
         slept w' = slept w @ map (\<lambda>k. last (intervals kw) * 2 ^ Suc k) [0..<n] \<and>
         length (requests w') = length (requests w) + n \<and>
         length (warnings w') = length (warnings w) + n \<and>
         (0 < n \<or> total_time kw \<le> timeout \<longrightarrow> total_time kw' \<le> timeout)"
  using assms
proof (induction n arbitrary: kw w)
  case 0
  then show ?case by simp
next
  case (Suc n)
  let ?f = "do_lookup self session hardware_info timeout"
  obtain out kw1 w1 where step: "?f kw w = (out, kw1, w1)"
    by (cases "?f kw w") auto
  with Suc.prems(1) obtain idle where out: "out = Return idle"
    by (cases out) auto
  from Suc.prems(1) step out
  have rest: "after_retries n ?f kw1 (sleep idle w1) = Some (kw', w')"
    by simp
  from do_lookup_Return[OF step[unfolded out]]
  have idle: "idle = last (intervals kw) * 2"
    and le: "total_time kw + idle \<le> timeout"
    and kw1: "kw1 = \<lparr>intervals = intervals kw @ [idle], total_time = total_time kw + idle\<rparr>"
    and w1: "length (requests w1) = Suc (length (requests w))"
      "length (warnings w1) = Suc (length (warnings w))" "slept w1 = slept w"
    by auto
  have ne: "intervals kw1 \<noteq> []"
    by (simp add: kw1)
  have last1: "last (intervals kw1) = last (intervals kw) * 2"
    by (simp add: kw1 idle)
  note IH = Suc.IH[OF rest ne, unfolded last1]
  have shift: "map (\<lambda>k. last (intervals kw) * 2 ^ Suc k) [0..<Suc n] =
        idle # map (\<lambda>k. last (intervals kw) * 2 * 2 ^ Suc k) [0..<n]"
    by (simp add: map_upt_Suc idle del: upt_Suc)
  from IH show ?case
    unfolding shift
    by (simp add: kw1 w1 sleep_def le)
qed

subsection \<open>Evaluating the retry step\<close>

lemma request_lookup:
  "request self session ''POST'' lookup_path (Some (JDict [(''hardware'', hw)])) w =
   (session (length (requests w)) (lookup_request self hw),
    w\<lparr>requests := requests w @ [lookup_request self hw]\<rparr>)"
  by (simp add: request_def lookup_request_def Let_def)

lemma do_lookup_bad_status:
  assumes "session (length (requests w)) (lookup_request self hw) = Returns r"
    and "status_code r \<noteq> 200"
  shows "do_lookup self session hw timeout kw w =
         retry (InvalidStatusCode (status_code r)) timeout kw
           (w\<lparr>requests := requests w @ [lookup_request self hw]\<rparr>)"
  using assms by (simp add: do_lookup_def request_lookup codes_OK_def)

lemma do_lookup_body:
  assumes "session (length (requests w)) (lookup_request self hw) = Returns r"
    and "status_code r = 200" and "content r = Inr c"
  shows "do_lookup self session hw timeout kw w =
     (case node_invalid c of
        Inl e \<Rightarrow> (Raise e, kw, w\<lparr>requests := requests w @ [lookup_request self hw]\<rparr>)
      | Inr True \<Rightarrow> retry (InvalidNodeData c) timeout kw (w\<lparr>requests := requests w @ [lookup_request self hw]\<rparr>)
      | Inr False \<Rightarrow>
          (case contains ''heartbeat_timeout'' c of
             Inl e \<Rightarrow> (Raise e, kw, w\<lparr>requests := requests w @ [lookup_request self hw]\<rparr>)
           | Inr False \<Rightarrow> retry (InvalidHeartbeat c) timeout kw (w\<lparr>requests := requests w @ [lookup_request self hw]\<rparr>)
           | Inr True \<Rightarrow> (LoopingCallDone (Some c), kw, w\<lparr>requests := requests w @ [lookup_request self hw]\<rparr>)))"
  using assms by (simp add: do_lookup_def request_lookup codes_OK_def)

lemmas eval_defs = retry_def next_interval_def log_warning_def sleep_def Let_def
  answering_def status_only_def ok_with_def world0_def fail_then_ok_def

lemma node_invalid_valid_body: "node_invalid valid_body = Inr False"
  by (simp add: node_invalid_def valid_body_def)

subsection \<open>The budget is inclusive\<close>

text \<open>
  C10. The timeout budget is inclusive. After a failed attempt (one that logged a warning)
  the step ends the loop without a value exactly when \<open>total_time\<close> plus the doubled
  interval is strictly greater than the timeout. When the sum equals the timeout, the
  interval is appended, \<open>total_time\<close> becomes the timeout itself, the loop sleeps for the
  interval and goes on to invoke the work function again.
\<close>

theorem budget_inclusive:
  assumes "do_lookup self session hardware_info timeout kw w = (out, kw', w')"
    and "warnings w' \<noteq> warnings w"
    and "intervals kw \<noteq> []"
  shows "(out = LoopingCallDone None \<longleftrightarrow> timeout < total_time kw + last (intervals kw) * 2) \<and>
         (total_time kw + last (intervals kw) * 2 = timeout \<longrightarrow>
            out = Return (last (intervals kw) * 2) \<and>
            kw' = \<lparr>intervals = intervals kw @ [last (intervals kw) * 2], total_time = timeout\<rparr> \<and>
            after_retries 1 (do_lookup self session hardware_info timeout) kw w =
              Some (kw', sleep (last (intervals kw) * 2) w') \<and>
            dynamic_looping_call (do_lookup self session hardware_info timeout) kw w =
              dynamic_looping_call (do_lookup self session hardware_info timeout) kw'
                (sleep (last (intervals kw) * 2) w'))"
proof -
  from do_lookup_cases[OF assms(1)] assms(2)
  have ni: "next_interval timeout kw = (out, kw')"
    by auto
  show ?thesis
  proof (cases "timeout < total_time kw + last (intervals kw) * 2")
    case True
    with ni assms(3) show ?thesis
      by (auto simp: next_interval_def Let_def)
  next
    case False
    with ni assms(3) have out: "out = Return (last (intervals kw) * 2)"
      and kw': "kw' = \<lparr>intervals = intervals kw @ [last (intervals kw) * 2],
                       total_time = total_time kw + last (intervals kw) * 2\<rparr>"
      by (auto simp: next_interval_def Let_def)
    from assms(1) out have "after_retries 1 (do_lookup self session hardware_info timeout) kw w =
              Some (kw', sleep (last (intervals kw) * 2) w')"
      by simp
    moreover from assms(1) out
    have "dynamic_looping_call (do_lookup self session hardware_info timeout) kw w =
              dynamic_looping_call (do_lookup self session hardware_info timeout) kw'
                (sleep (last (intervals kw) * 2) w')"
      by (simp add: dlc_Return)
    ultimately show ?thesis
      using out kw' False by auto
  qed
qed

theorem budget_inclusive_witness:
  "do_lookup client0 (answering (status_only 500)) JNull 2 \<lparr>intervals = [1], total_time = 0\<rparr> world0 =
     (Return 2, \<lparr>intervals = [1, 2], total_time = 2\<rparr>,
      \<lparr>requests = [lookup_request client0 JNull], warnings = [InvalidStatusCode 500], slept = []\<rparr>) \<and>
   after_retries 1 (do_lookup client0 (answering (status_only 500)) JNull 2)
       \<lparr>intervals = [1], total_time = 0\<rparr> world0 =
     Some (\<lparr>intervals = [1, 2], total_time = 2\<rparr>,
           \<lparr>requests = [lookup_request client0 JNull], warnings = [InvalidStatusCode 500],
            slept = [2]\<rparr>)"
proof -
  have step: "do_lookup client0 (answering (status_only 500)) JNull 2
        \<lparr>intervals = [1], total_time = 0\<rparr> world0 =
     (Return 2, \<lparr>intervals = [1, 2], total_time = 2\<rparr>,
      \<lparr>requests = [lookup_request client0 JNull], warnings = [InvalidStatusCode 500], slept = []\<rparr>)"
    by (simp add: do_lookup_bad_status[where r = "status_only 500"] eval_defs)
  from budget_inclusive[OF step] step show ?thesis
    by (simp add: world0_def sleep_def)
qed

subsection \<open>The state of the loop after n retries\<close>

lemma after_retries_prefix:
  "after_retries n f kw w = Some y \<Longrightarrow> m \<le> n \<Longrightarrow>
   \<exists>kwm wm. after_retries m f kw w = Some (kwm, wm) \<and> after_retries (n - m) f kwm wm = Some y"
proof (induction m arbitrary: n kw w)
  case 0
  then show ?case by simp
next
  case (Suc m)
  then obtain n' where n: "n = Suc n'" and le: "m \<le> n'"
    by (cases n) auto
  obtain out kw1 w1 where step: "f kw w = (out, kw1, w1)"
    by (cases "f kw w") auto
  with Suc.prems(1) n obtain idle where out: "out = Return idle"
    by (cases out) auto
  with Suc.prems(1) n step have "after_retries n' f kw1 (sleep idle w1) = Some y"
    by simp
  from Suc.IH[OF this le] step out n show ?case
    by simp
qed

lemma doubling_from_one: "map (\<lambda>k. s * 2 ^ Suc k) [0..<n] = map (\<lambda>N. s * 2 ^ N) [1..<Suc n]"
proof -
  have "map (\<lambda>N. s * 2 ^ N) [Suc 0..<Suc n] = map (\<lambda>N. s * 2 ^ N) (map Suc [0..<n])"
    by (simp only: map_Suc_upt)
  then show ?thesis
    by (simp add: comp_def del: upt_Suc)
qed

lemma run_state:
  fixes s :: int
  assumes "after_retries n (do_lookup self session hardware_info timeout)
             \<lparr>intervals = [s], total_time = 0\<rparr> w = Some (kw, w')"
  shows "intervals kw = map (\<lambda>N. s * 2 ^ N) [0..<Suc n] \<and>
         total_time kw = sum_list (map (\<lambda>N. s * 2 ^ N) [1..<Suc n]) \<and>
         slept w' = slept w @ map (\<lambda>N. s * 2 ^ N) [1..<Suc n] \<and>
         length (requests w') = length (requests w) + n \<and>
         length (warnings w') = length (warnings w) + n \<and>
         (0 < n \<longrightarrow> total_time kw \<le> timeout)"
proof -
  have hd: "map (\<lambda>N. s * 2 ^ N) [0..<Suc n] = s # map (\<lambda>k. s * 2 ^ Suc k) [0..<n]"
    by (simp add: map_upt_Suc del: upt_Suc power_Suc)
  from after_retries_do_lookup[OF assms] show ?thesis
    unfolding hd by (auto simp add: doubling_from_one simp del: upt_Suc power_Suc)
qed

lemma sum_doubling_mono:
  fixes s :: int
  assumes "0 < s" "m \<le> n"
  shows "sum_list (map (\<lambda>N. s * 2 ^ N) [1..<Suc m]) \<le> sum_list (map (\<lambda>N. s * 2 ^ N) [1..<Suc n])"
proof -
  have "sum (\<lambda>N. s * 2 ^ N) {1..<Suc m} \<le> sum (\<lambda>N. s * 2 ^ N) {1..<Suc n}"
    using assms by (intro sum_mono2) auto
  then show ?thesis
    by (simp add: interv_sum_list_conv_sum_set_nat del: upt_Suc)
qed

lemma step_500:
  "do_lookup self (answering (status_only 500)) hw timeout kw w =
   retry (InvalidStatusCode 500) timeout kw (w\<lparr>requests := requests w @ [lookup_request self hw]\<rparr>)"
  by (simp add: do_lookup_bad_status[where r = "status_only 500"] answering_def status_only_def)

lemma run_500_twice:
  "after_retries 2 (do_lookup client0 (answering (status_only 500)) JNull 10)
     \<lparr>intervals = [1], total_time = 0\<rparr> world0 =
   Some (\<lparr>intervals = [1, 2, 4], total_time = 6\<rparr>,
         \<lparr>requests = [lookup_request client0 JNull, lookup_request client0 JNull],
          warnings = [InvalidStatusCode 500, InvalidStatusCode 500], slept = [2, 4]\<rparr>)"
  by (simp add: numeral_2_eq_2 step_500 retry_def next_interval_def log_warning_def sleep_def
      world0_def)

subsection \<open>Backoff doubling\<close>

text \<open>
  C4. When \<^verbatim>\<open>lookup_node\<close> has started the loop with \<open>starting_interval = s\<close> and the loop
  has retried \<open>n\<close> times, the intervals held are \<open>s \<cdot> 2^N\<close> for \<open>N = 0, \<dots>, n\<close>, and the
  loop has slept for \<open>s \<cdot> 2^N\<close> after the \<open>N\<close>-th failed attempt (\<open>N = 1, \<dots>, n\<close>). Each
  interval is twice the one before it. For a positive \<open>s\<close> the sequence is strictly
  increasing, and \<open>total_time\<close> at any earlier point of the run is at most what it is later.
\<close>

theorem backoff_doubling:
  fixes s :: int
  assumes "after_retries n (do_lookup self session hardware_info timeout)
             \<lparr>intervals = [s], total_time = 0\<rparr> w = Some (kw, w')"
  shows "intervals kw = map (\<lambda>N. s * 2 ^ N) [0..<Suc n] \<and>
         slept w' = slept w @ map (\<lambda>N. s * 2 ^ N) [1..<Suc n] \<and>
         (\<forall>N<n. intervals kw ! Suc N = 2 * intervals kw ! N) \<and>
         (0 < s \<longrightarrow>
            sorted_wrt (<) (intervals kw) \<and>
            (\<forall>m\<le>n. \<exists>kwm wm.
               after_retries m (do_lookup self session hardware_info timeout)
                 \<lparr>intervals = [s], total_time = 0\<rparr> w = Some (kwm, wm) \<and>
               total_time kwm \<le> total_time kw))"
proof -
  note st = run_state[OF assms]
  have iv: "intervals kw = map (\<lambda>N. s * 2 ^ N) [0..<Suc n]"
    using st by blast
  have dbl: "\<forall>N<n. intervals kw ! Suc N = 2 * intervals kw ! N"
    unfolding iv by (auto simp del: upt_Suc)
  have srt: "sorted_wrt (<) (intervals kw)" if "0 < s"
  proof -
    have "sorted_wrt (\<lambda>x y. s * 2 ^ x < s * 2 ^ y) [0..<Suc n]"
      by (rule sorted_wrt_mono_rel[OF _ sorted_wrt_upt]) (use that in simp)
    then show ?thesis
      unfolding iv by (simp only: sorted_wrt_map)
  qed
  have mono: "\<exists>kwm wm.
               after_retries m (do_lookup self session hardware_info timeout)
                 \<lparr>intervals = [s], total_time = 0\<rparr> w = Some (kwm, wm) \<and>
               total_time kwm \<le> total_time kw" if "0 < s" "m \<le> n" for m
  proof -
    from after_retries_prefix[OF assms that(2)] obtain kwm wm where
      m: "after_retries m (do_lookup self session hardware_info timeout)
                 \<lparr>intervals = [s], total_time = 0\<rparr> w = Some (kwm, wm)"
      by blast
    from run_state[OF m] st sum_doubling_mono[OF that] have "total_time kwm \<le> total_time kw"
      by simp
    with m show ?thesis
      by blast
  qed
  from st dbl srt mono show ?thesis
    by blast
qed

theorem backoff_doubling_witness:
  "after_retries 2 (do_lookup client0 (answering (status_only 500)) JNull 10)
     \<lparr>intervals = [1], total_time = 0\<rparr> world0 =
   Some (\<lparr>intervals = [1, 2, 4], total_time = 6\<rparr>,
         \<lparr>requests = [lookup_request client0 JNull, lookup_request client0 JNull],
          warnings = [InvalidStatusCode 500, InvalidStatusCode 500], slept = [2, 4]\<rparr>) \<and>
   intervals \<lparr>intervals = [1, 2, 4], total_time = 6\<rparr> = map (\<lambda>N. 1 * 2 ^ N) [0..<Suc 2] \<and>
   sorted_wrt (<) (intervals \<lparr>intervals = [1, 2, 4], total_time = 6\<rparr>)"
proof -
  note run = run_500_twice
  note inst = backoff_doubling[OF run]
  from inst have "(0::int) < 1 \<longrightarrow>
      sorted_wrt (<) (intervals \<lparr>intervals = [1, 2, 4], total_time = 6\<rparr>)"
    by blast
  then have "sorted_wrt (<) (intervals \<lparr>intervals = [1, 2, 4], total_time = 6\<rparr>)"
    by (rule mp) simp
  with run inst show ?thesis
    by blast
qed

subsection \<open>What the counter counts\<close>

text \<open>
  C9. At every point of the run \<open>total_time\<close> is the sum of the intervals appended after the
  seed, and these are exactly the durations slept: the seed \<open>s\<close> stays the head of
  \<open>intervals\<close>, is never added to \<open>total_time\<close> and is never slept for. Nothing that the
  transport does enters the counter. The appended intervals are \<open>2s, 4s, \<dots>\<close>, and once
  one has been appended their sum is within the timeout.
\<close>

theorem seed_not_counted:
  fixes s :: int
  assumes "after_retries n (do_lookup self session hardware_info timeout)
             \<lparr>intervals = [s], total_time = 0\<rparr> w = Some (kw, w')"
  shows "hd (intervals kw) = s \<and>
         tl (intervals kw) = map (\<lambda>k. 2 * s * 2 ^ k) [0..<n] \<and>
         total_time kw = sum_list (tl (intervals kw)) \<and>
         slept w' = slept w @ tl (intervals kw) \<and>
         (0 < n \<longrightarrow> sum_list (tl (intervals kw)) \<le> timeout)"
proof -
  have eq: "(\<lambda>k. s * 2 ^ Suc k) = (\<lambda>k. 2 * s * 2 ^ k)"
    by (simp add: fun_eq_iff)
  have "hd (intervals kw) = s \<and>
         tl (intervals kw) = map (\<lambda>k. s * 2 ^ Suc k) [0..<n] \<and>
         total_time kw = sum_list (tl (intervals kw)) \<and>
         slept w' = slept w @ tl (intervals kw) \<and>
         (0 < n \<longrightarrow> sum_list (tl (intervals kw)) \<le> timeout)"
    using after_retries_do_lookup[OF assms] by (auto simp del: upt_Suc power_Suc)
  then show ?thesis
    unfolding eq .
qed

theorem seed_not_counted_witness:
  "after_retries 2 (do_lookup client0 (answering (status_only 500)) JNull 10)
     \<lparr>intervals = [1], total_time = 0\<rparr> world0 =
   Some (\<lparr>intervals = [1, 2, 4], total_time = 6\<rparr>,
         \<lparr>requests = [lookup_request client0 JNull, lookup_request client0 JNull],
          warnings = [InvalidStatusCode 500, InvalidStatusCode 500], slept = [2, 4]\<rparr>) \<and>
   hd (intervals \<lparr>intervals = [1, 2, 4], total_time = 6\<rparr>) = 1 \<and>
   total_time \<lparr>intervals = [1, 2, 4], total_time = 6\<rparr> =
     sum_list (tl (intervals \<lparr>intervals = [1, 2, 4], total_time = 6\<rparr>)) \<and>
   sum_list (tl (intervals \<lparr>intervals = [1, 2, 4], total_time = 6\<rparr>)) \<le> 10"
proof -
  note run = run_500_twice
  note inst = seed_not_counted[OF run]
  from inst have "(0::nat) < 2 \<longrightarrow>
      sum_list (tl (intervals \<lparr>intervals = [1, 2, 4], total_time = 6\<rparr>)) \<le> 10"
    by blast
  then have "sum_list (tl (intervals \<lparr>intervals = [1, 2, 4], total_time = 6\<rparr>)) \<le> 10"
    by (rule mp) simp
  with run inst show ?thesis
    by blast
qed

subsection \<open>The timeout is respected\<close>

text \<open>
  C1. Whatever the transport answers, and for every timeout and starting interval: a
  further invocation of the work function (one after the first) happens only with
  \<open>total_time\<close> within the timeout. After a failed attempt (one that logged a warning),
  the next interval is returned to the loop only when \<open>total_time\<close> plus that interval is
  within the timeout; when the sum exceeds the timeout, the step raises
  \<^verbatim>\<open>LoopingCallDone\<close> without a value before any sleep, the loop ends there (no further
  request is sent), and \<^verbatim>\<open>lookup_node\<close> raises \<^verbatim>\<open>LookupNodeError\<close>.
\<close>

theorem timeout_respected:
  fixes s :: int
  assumes run: "after_retries n (do_lookup self session hardware_info timeout)
                  \<lparr>intervals = [s], total_time = 0\<rparr> w = Some (kw, w1)"
    and step: "do_lookup self session hardware_info timeout kw w1 = (out, kw2, w2)"
    and failed: "warnings w2 \<noteq> warnings w1"
  shows "(0 < n \<longrightarrow> total_time kw \<le> timeout) \<and>
         (\<forall>idle. out = Return idle \<longrightarrow>
            idle = last (intervals kw) * 2 \<and> total_time kw + idle \<le> timeout) \<and>
         (timeout < total_time kw + last (intervals kw) * 2 \<longrightarrow>
            out = LoopingCallDone None \<and> kw2 = kw \<and> slept w2 = slept w1 \<and>
            length (requests w2) = length (requests w) + Suc n \<and>
            lookup_node self session hardware_info timeout s w =
              Some (Inl (LookupNodeError
                     ''Could not look up node info. Check logs for details.''), w2))"
proof -
  let ?f = "do_lookup self session hardware_info timeout"
  note st = run_state[OF run]
  have ne: "intervals kw \<noteq> []"
    using st by (simp del: upt_Suc)
  from do_lookup_cases[OF step] failed
  have ni: "next_interval timeout kw = (out, kw2)"
    and rq: "length (requests w2) = Suc (length (requests w1))"
    and sl: "slept w2 = slept w1"
    by auto
  have ret: "idle = last (intervals kw) * 2 \<and> total_time kw + idle \<le> timeout"
    if "out = Return idle" for idle
    using ni that by (auto dest: next_interval_Return)
  have stop: "out = LoopingCallDone None \<and> kw2 = kw \<and> slept w2 = slept w1 \<and>
            length (requests w2) = length (requests w) + Suc n \<and>
            lookup_node self session hardware_info timeout s w =
              Some (Inl (LookupNodeError
                     ''Could not look up node info. Check logs for details.''), w2)"
    if over: "timeout < total_time kw + last (intervals kw) * 2"
  proof -
    from ni ne over have out: "out = LoopingCallDone None" and kw2: "kw2 = kw"
      by (auto simp: next_interval_def Let_def)
    have "timer_start_wait self session hardware_info timeout s w = dynamic_looping_call ?f kw w1"
      unfolding timer_start_wait_def by (rule dlc_after_retries[OF run])
    also have "\<dots> = Some (Inr (JBool True), kw2, w2)"
      using step out by (simp add: dlc_Done)
    finally have "lookup_node self session hardware_info timeout s w =
              Some (Inl (LookupNodeError
                     ''Could not look up node info. Check logs for details.''), w2)"
      by (simp add: lookup_node_def)
    with out kw2 sl rq st show ?thesis
      by simp
  qed
  from st ret stop show ?thesis
    by blast
qed

lemma contains_heartbeat_valid_body: "contains ''heartbeat_timeout'' valid_body = Inr True"
  by (simp add: valid_body_def)

lemma run_500_once:
  "after_retries 1 (do_lookup client0 (answering (status_only 500)) JNull 5)
     \<lparr>intervals = [1], total_time = 0\<rparr> world0 =
   Some (\<lparr>intervals = [1, 2], total_time = 2\<rparr>,
         \<lparr>requests = [lookup_request client0 JNull],
          warnings = [InvalidStatusCode 500], slept = [2]\<rparr>)"
  by (simp add: step_500 retry_def next_interval_def log_warning_def sleep_def world0_def)

lemma step_500_over:
  "do_lookup client0 (answering (status_only 500)) JNull 5 \<lparr>intervals = [1, 2], total_time = 2\<rparr>
     \<lparr>requests = [lookup_request client0 JNull], warnings = [InvalidStatusCode 500],
      slept = [2]\<rparr> =
   (LoopingCallDone None, \<lparr>intervals = [1, 2], total_time = 2\<rparr>,
    \<lparr>requests = [lookup_request client0 JNull, lookup_request client0 JNull],
     warnings = [InvalidStatusCode 500, InvalidStatusCode 500], slept = [2]\<rparr>)"
  by (simp add: step_500 retry_def next_interval_def log_warning_def)

theorem timeout_respected_witness:
  "after_retries 1 (do_lookup client0 (answering (status_only 500)) JNull 5)
     \<lparr>intervals = [1], total_time = 0\<rparr> world0 =
   Some (\<lparr>intervals = [1, 2], total_time = 2\<rparr>,
         \<lparr>requests = [lookup_request client0 JNull],
          warnings = [InvalidStatusCode 500], slept = [2]\<rparr>) \<and>
   do_lookup client0 (answering (status_only 500)) JNull 5 \<lparr>intervals = [1, 2], total_time = 2\<rparr>
     \<lparr>requests = [lookup_request client0 JNull], warnings = [InvalidStatusCode 500],
      slept = [2]\<rparr> =
   (LoopingCallDone None, \<lparr>intervals = [1, 2], total_time = 2\<rparr>,
    \<lparr>requests = [lookup_request client0 JNull, lookup_request client0 JNull],
     warnings = [InvalidStatusCode 500, InvalidStatusCode 500], slept = [2]\<rparr>) \<and>
   lookup_node client0 (answering (status_only 500)) JNull 5 1 world0 =
     Some (Inl (LookupNodeError ''Could not look up node info. Check logs for details.''),
           \<lparr>requests = [lookup_request client0 JNull, lookup_request client0 JNull],
            warnings = [InvalidStatusCode 500, InvalidStatusCode 500], slept = [2]\<rparr>)"
proof -
  note run = run_500_once
  note step = step_500_over
  have "5 < total_time \<lparr>intervals = [1, 2], total_time = 2\<rparr> +
          last (intervals \<lparr>intervals = [1, 2], total_time = 2\<rparr>) * 2 \<longrightarrow>
        lookup_node client0 (answering (status_only 500)) JNull 5 1 world0 =
          Some (Inl (LookupNodeError ''Could not look up node info. Check logs for details.''),
           \<lparr>requests = [lookup_request client0 JNull, lookup_request client0 JNull],
            warnings = [InvalidStatusCode 500, InvalidStatusCode 500], slept = [2]\<rparr>)"
    using timeout_respected[OF run step] by simp
  then have "lookup_node client0 (answering (status_only 500)) JNull 5 1 world0 =
          Some (Inl (LookupNodeError ''Could not look up node info. Check logs for details.''),
           \<lparr>requests = [lookup_request client0 JNull, lookup_request client0 JNull],
            warnings = [InvalidStatusCode 500, InvalidStatusCode 500], slept = [2]\<rparr>)"
    by (rule mp) simp
  with run step show ?thesis
    by blast
qed

subsection \<open>Success ends the loop\<close>

text \<open>
  C5. When a run of \<^verbatim>\<open>_do_lookup\<close> raises \<^verbatim>\<open>LoopingCallDone\<close> with the validated
  content, the loop ends in the state that this run left (no further request, no sleep),
  and \<^verbatim>\<open>lookup_node\<close> returns that very content.
\<close>

theorem success_short_circuits:
  fixes s :: int
  assumes run: "after_retries n (do_lookup self session hardware_info timeout)
                  \<lparr>intervals = [s], total_time = 0\<rparr> w = Some (kw, w1)"
    and step: "do_lookup self session hardware_info timeout kw w1 =
                 (LoopingCallDone (Some c), kw2, w2)"
  shows "lookup_node self session hardware_info timeout s w = Some (Inr c, w2) \<and>
         timer_start_wait self session hardware_info timeout s w = Some (Inr c, kw2, w2) \<and>
         length (requests w2) = length (requests w) + Suc n \<and>
         slept w2 = slept w1"
proof -
  let ?f = "do_lookup self session hardware_info timeout"
  note st = run_state[OF run]
  from do_lookup_cases[OF step] next_interval_Done[of timeout kw "Some c" kw2]
  have rq: "length (requests w2) = Suc (length (requests w1))"
    and sl: "slept w2 = slept w1"
    and c: "\<exists>kvs. c = JDict kvs"
    by auto
  have "timer_start_wait self session hardware_info timeout s w = dynamic_looping_call ?f kw w1"
    unfolding timer_start_wait_def by (rule dlc_after_retries[OF run])
  also have "\<dots> = Some (Inr c, kw2, w2)"
    using step by (simp add: dlc_Done)
  finally have tw: "timer_start_wait self session hardware_info timeout s w = Some (Inr c, kw2, w2)" .
  with c have "lookup_node self session hardware_info timeout s w = Some (Inr c, w2)"
    by (auto simp: lookup_node_def)
  with tw rq sl st show ?thesis
    by simp
qed

lemma run_fail_once:
  "after_retries 1 (do_lookup client0 fail_then_ok JNull 3)
     \<lparr>intervals = [1], total_time = 0\<rparr> world0 =
   Some (\<lparr>intervals = [1, 2], total_time = 2\<rparr>,
         \<lparr>requests = [lookup_request client0 JNull],
          warnings = [InvalidStatusCode 500], slept = [2]\<rparr>)"
  by (simp add: do_lookup_bad_status[where r = "status_only 500"] fail_then_ok_def
      status_only_def retry_def next_interval_def log_warning_def sleep_def world0_def)

lemma step_then_ok:
  "do_lookup client0 fail_then_ok JNull 3 \<lparr>intervals = [1, 2], total_time = 2\<rparr>
     \<lparr>requests = [lookup_request client0 JNull], warnings = [InvalidStatusCode 500],
      slept = [2]\<rparr> =
   (LoopingCallDone (Some valid_body), \<lparr>intervals = [1, 2], total_time = 2\<rparr>,
    \<lparr>requests = [lookup_request client0 JNull, lookup_request client0 JNull],
     warnings = [InvalidStatusCode 500], slept = [2]\<rparr>)"
  by (simp add: do_lookup_body[where r = "ok_with valid_body" and c = valid_body]
      fail_then_ok_def ok_with_def node_invalid_valid_body contains_heartbeat_valid_body)

theorem success_short_circuits_witness:
  "after_retries 1 (do_lookup client0 fail_then_ok JNull 3)
     \<lparr>intervals = [1], total_time = 0\<rparr> world0 =
   Some (\<lparr>intervals = [1, 2], total_time = 2\<rparr>,
         \<lparr>requests = [lookup_request client0 JNull],
          warnings = [InvalidStatusCode 500], slept = [2]\<rparr>) \<and>
   do_lookup client0 fail_then_ok JNull 3 \<lparr>intervals = [1, 2], total_time = 2\<rparr>
     \<lparr>requests = [lookup_request client0 JNull], warnings = [InvalidStatusCode 500],
      slept = [2]\<rparr> =
   (LoopingCallDone (Some valid_body), \<lparr>intervals = [1, 2], total_time = 2\<rparr>,
    \<lparr>requests = [lookup_request client0 JNull, lookup_request client0 JNull],
     warnings = [InvalidStatusCode 500], slept = [2]\<rparr>) \<and>
   lookup_node client0 fail_then_ok JNull 3 1 world0 =
     Some (Inr valid_body,
           \<lparr>requests = [lookup_request client0 JNull, lookup_request client0 JNull],
            warnings = [InvalidStatusCode 500], slept = [2]\<rparr>)"
  using run_fail_once step_then_ok success_short_circuits[OF run_fail_once step_then_ok]
  by blast

subsection \<open>Every attempt answered with status 500\<close>

lemma do_lookup_always_500:
  assumes "\<forall>k req. \<exists>r. session k req = Returns r \<and> status_code r = 500"
  shows "do_lookup self session hw timeout kw w =
         retry (InvalidStatusCode 500) timeout kw
           (w\<lparr>requests := requests w @ [lookup_request self hw]\<rparr>)"
proof -
  from assms obtain r where "session (length (requests w)) (lookup_request self hw) = Returns r"
    and "status_code r = 500"
    by blast
  then show ?thesis
    using do_lookup_bad_status[of session w self hw r timeout kw] by simp
qed

text \<open>
  The loop has no bound of its own: with \<open>starting_interval = 0\<close> every doubled interval
  is 0, the check never fails for a timeout that is not negative, and against a transport
  that always fails \<^verbatim>\<open>lookup_node\<close> never returns.
\<close>

lemma dlc_never_returns:
  assumes ret: "dynamic_looping_call f kw w = Some y"
    and always: "\<forall>k req. \<exists>r. session k req = Returns r \<and> status_code r = 500"
    and budget: "0 \<le> timeout"
  shows "f = do_lookup self session hw timeout \<and> intervals kw \<noteq> [] \<and>
         last (intervals kw) = 0 \<and> total_time kw = 0 \<longrightarrow> False"
  using ret
proof (induction f kw w y rule: dynamic_looping_call.raw_induct)
  case (1 dlc f kw w y)
  show ?case
  proof
    assume a: "f = do_lookup self session hw timeout \<and> intervals kw \<noteq> [] \<and>
         last (intervals kw) = 0 \<and> total_time kw = 0"
    let ?kw1 = "\<lparr>intervals = intervals kw @ [0], total_time = 0\<rparr>"
    let ?w1 = "log_warning (InvalidStatusCode 500)
                 (w\<lparr>requests := requests w @ [lookup_request self hw]\<rparr>)"
    from a budget have step: "f kw w = (Return 0, ?kw1, ?w1)"
      by (simp add: do_lookup_always_500[OF always] retry_def next_interval_def)
    with 1(2) have r1: "dlc f ?kw1 (sleep 0 ?w1) = Some y"
      by simp
    have r2: "dynamic_looping_call f ?kw1 (sleep 0 ?w1) = Some y"
      using dlc_Return[of f kw w, OF step, symmetric] 1(3) by (rule trans)
    from 1(1)[OF r1 r2] a show False
      by simp
  qed
qed (rule ret)

lemma lookup_node_zero_interval_diverges:
  assumes "\<forall>k req. \<exists>r. session k req = Returns r \<and> status_code r = 500"
    and "0 \<le> timeout"
  shows "lookup_node self session hw timeout 0 w = None"
proof -
  have "timer_start_wait self session hw timeout 0 w = None"
  proof (rule ccontr)
    assume "timer_start_wait self session hw timeout 0 w \<noteq> None"
    then obtain y where "dynamic_looping_call (do_lookup self session hw timeout)
        \<lparr>intervals = [0], total_time = 0\<rparr> w = Some y"
      by (auto simp: timer_start_wait_def)
    from dlc_never_returns[OF this assms, of self hw] show False
      by simp
  qed
  then show ?thesis
    by (simp add: lookup_node_def)
qed

text \<open>
  C2, as the spec states it, has the loop count 1 and then 3 seconds (backoff 1 then 2) and
  stop because 3 + 4 = 7 exceeds the timeout 3. The code never counts or sleeps the seed:
  after the first failed attempt \<open>total_time\<close> is 2, it is still 2 when the loop ends, and
  the only sleep is of 2 seconds.
\<close>

theorem scenario_b_counterexample:
  "map_option (total_time \<circ> fst)
     (after_retries 1 (do_lookup client0 (answering (status_only 500)) JNull 3)
        \<lparr>intervals = [1], total_time = 0\<rparr> world0) = Some 2 \<and>
   map_option (total_time \<circ> fst)
     (after_retries 1 (do_lookup client0 (answering (status_only 500)) JNull 3)
        \<lparr>intervals = [1], total_time = 0\<rparr> world0) \<noteq> Some 1 \<and>
   map_option (total_time \<circ> fst \<circ> snd)
     (timer_start_wait client0 (answering (status_only 500)) JNull 3 1 world0) = Some 2 \<and>
   map_option (total_time \<circ> fst \<circ> snd)
     (timer_start_wait client0 (answering (status_only 500)) JNull 3 1 world0) \<noteq> Some 3 \<and>
   map_option (slept \<circ> snd \<circ> snd)
     (timer_start_wait client0 (answering (status_only 500)) JNull 3 1 world0) = Some [2] \<and>
   map_option (slept \<circ> snd \<circ> snd)
     (timer_start_wait client0 (answering (status_only 500)) JNull 3 1 world0) \<noteq> Some [1, 2]"
proof -
  let ?f = "do_lookup client0 (answering (status_only 500)) JNull 3"
  have run: "after_retries 1 ?f \<lparr>intervals = [1], total_time = 0\<rparr> world0 =
     Some (\<lparr>intervals = [1, 2], total_time = 2\<rparr>,
           \<lparr>requests = [lookup_request client0 JNull], warnings = [InvalidStatusCode 500],
            slept = [2]\<rparr>)"
    by (simp add: step_500 retry_def next_interval_def log_warning_def sleep_def world0_def)
  have step: "?f \<lparr>intervals = [1, 2], total_time = 2\<rparr>
       \<lparr>requests = [lookup_request client0 JNull], warnings = [InvalidStatusCode 500],
        slept = [2]\<rparr> =
     (LoopingCallDone None, \<lparr>intervals = [1, 2], total_time = 2\<rparr>,
      \<lparr>requests = [lookup_request client0 JNull, lookup_request client0 JNull],
       warnings = [InvalidStatusCode 500, InvalidStatusCode 500], slept = [2]\<rparr>)"
    by (simp add: step_500 retry_def next_interval_def log_warning_def)
  have "timer_start_wait client0 (answering (status_only 500)) JNull 3 1 world0 =
     Some (Inr (JBool True), \<lparr>intervals = [1, 2], total_time = 2\<rparr>,
      \<lparr>requests = [lookup_request client0 JNull, lookup_request client0 JNull],
       warnings = [InvalidStatusCode 500, InvalidStatusCode 500], slept = [2]\<rparr>)"
    unfolding timer_start_wait_def dlc_after_retries[OF run]
    using step by (simp add: dlc_Done)
  with run show ?thesis
    by simp
qed

text \<open>
  C2, amended. With a transport that answers every request with status 500,
  \<open>starting_interval = 1\<close> and \<open>timeout = 3\<close>: the first attempt fails, the doubled
  interval 2 is counted (\<open>total_time = 2\<close>) and slept; the second attempt fails, the next
  interval 4 would bring the count to 6 > 3, so the loop ends without a value and
  \<^verbatim>\<open>lookup_node\<close> raises \<^verbatim>\<open>LookupNodeError\<close>. Exactly two requests have been sent.
\<close>

theorem scenario_b:
  assumes "\<forall>k req. \<exists>r. session k req = Returns r \<and> status_code r = 500"
  shows "\<exists>w'. lookup_node self session hardware_info 3 1 w =
                Some (Inl (LookupNodeError
                       ''Could not look up node info. Check logs for details.''), w') \<and>
              timer_start_wait self session hardware_info 3 1 w =
                Some (Inr (JBool True), \<lparr>intervals = [1, 2], total_time = 2\<rparr>, w') \<and>
              requests w' =
                requests w @ [lookup_request self hardware_info, lookup_request self hardware_info] \<and>
              warnings w' = warnings w @ [InvalidStatusCode 500, InvalidStatusCode 500] \<and>
              slept w' = slept w @ [2]"
proof -
  let ?f = "do_lookup self session hardware_info 3"
  let ?rq = "lookup_request self hardware_info"
  let ?w1 = "w\<lparr>requests := requests w @ [?rq], warnings := warnings w @ [InvalidStatusCode 500],
               slept := slept w @ [2]\<rparr>"
  let ?w2 = "w\<lparr>requests := requests w @ [?rq, ?rq],
               warnings := warnings w @ [InvalidStatusCode 500, InvalidStatusCode 500],
               slept := slept w @ [2]\<rparr>"
  have run: "after_retries 1 ?f \<lparr>intervals = [1], total_time = 0\<rparr> w =
               Some (\<lparr>intervals = [1, 2], total_time = 2\<rparr>, ?w1)"
    by (simp add: do_lookup_always_500[OF assms] retry_def next_interval_def log_warning_def
        sleep_def)
  have step: "?f \<lparr>intervals = [1, 2], total_time = 2\<rparr> ?w1 =
               (LoopingCallDone None, \<lparr>intervals = [1, 2], total_time = 2\<rparr>, ?w2)"
    by (simp add: do_lookup_always_500[OF assms] retry_def next_interval_def log_warning_def)
  have "timer_start_wait self session hardware_info 3 1 w =
          dynamic_looping_call ?f \<lparr>intervals = [1, 2], total_time = 2\<rparr> ?w1"
    unfolding timer_start_wait_def by (rule dlc_after_retries[OF run])
  also have "\<dots> = Some (Inr (JBool True), \<lparr>intervals = [1, 2], total_time = 2\<rparr>, ?w2)"
    using step by (simp add: dlc_Done)
  finally have tw: "timer_start_wait self session hardware_info 3 1 w =
      Some (Inr (JBool True), \<lparr>intervals = [1, 2], total_time = 2\<rparr>, ?w2)" .
  then have "lookup_node self session hardware_info 3 1 w =
                Some (Inl (LookupNodeError
                       ''Could not look up node info. Check logs for details.''), ?w2)"
    by (simp add: lookup_node_def)
  with tw show ?thesis
    by (intro exI[of _ ?w2]) simp
qed

theorem scenario_b_witness:
  "lookup_node client0 (answering (status_only 500)) JNull 3 1 world0 =
     Some (Inl (LookupNodeError ''Could not look up node info. Check logs for details.''),
           \<lparr>requests = [lookup_request client0 JNull, lookup_request client0 JNull],
            warnings = [InvalidStatusCode 500, InvalidStatusCode 500], slept = [2]\<rparr>)"
proof -
  have "\<forall>k req. \<exists>r. answering (status_only 500) k req = Returns r \<and> status_code r = 500"
    by (simp add: answering_def status_only_def)
  from scenario_b[OF this, of client0 JNull world0] show ?thesis
    by (auto simp: world0_def)
qed

subsection \<open>Bodies that are not a dict of the expected shape\<close>

text \<open>
  What \<^verbatim>\<open>_do_lookup\<close> accepts, what can escape from it, and what it rejects. A body is
  accepted only when it is a dict with the keys \<^verbatim>\<open>node\<close> and \<^verbatim>\<open>heartbeat_timeout\<close> whose
  node passes the test \<^verbatim>\<open>'uuid' in node\<close>; the test does not ask that the node is a dict.
  With the intervals of \<^verbatim>\<open>lookup_node\<close> (never empty) the only exception that escapes is
  the \<^verbatim>\<open>TypeError\<close> of the membership tests. A dict whose node is absent or is a dict
  without \<^verbatim>\<open>uuid\<close>, or that has no \<^verbatim>\<open>heartbeat_timeout\<close>, is rejected with a warning
  whatever the status code.
\<close>

lemma contains_Inr_True_dict:
  "contains k (JDict kvs) = Inr True \<longleftrightarrow> map_of kvs k \<noteq> None"
  by (simp add: map_of_eq_None_iff)

lemma next_interval_Raise:
  "next_interval timeout kw = (Raise e, kw') \<Longrightarrow> e = IndexError \<and> intervals kw = []"
  by (auto simp: next_interval_def Let_def split: if_splits)

lemma do_lookup_accepts:
  assumes "do_lookup self session hw t kw w = (LoopingCallDone (Some c), kw', w')"
  shows "\<exists>r kvs node. session (length (requests w)) (lookup_request self hw) = Returns r \<and>
           status_code r = 200 \<and> content r = Inr c \<and> c = JDict kvs \<and>
           map_of kvs ''node'' = Some node \<and> contains ''uuid'' node = Inr True \<and>
           map_of kvs ''heartbeat_timeout'' \<noteq> None"
proof -
  from assms obtain r where r: "session (length (requests w)) (lookup_request self hw) = Returns r"
    "status_code r = 200" "content r = Inr c" "node_invalid c = Inr False"
    "contains ''heartbeat_timeout'' c = Inr True"
    by (auto simp: do_lookup_def request_lookup codes_OK_def retry_def next_interval_def Let_def
        split: transport_result.splits if_splits sum.splits bool.splits prod.splits)
  from node_invalid_False_dict[OF r(4)] obtain kvs where c: "c = JDict kvs"
    by blast
  with r(4) obtain node where "map_of kvs ''node'' = Some node" "contains ''uuid'' node = Inr True"
    by (auto simp: node_invalid_def split: sum.splits bool.splits option.splits)
  with r c show ?thesis
    by (auto simp: map_of_eq_None_iff)
qed

lemma do_lookup_escapes:
  assumes "do_lookup self session hw t kw w = (Raise e, kw', w')"
  shows "(e = IndexError \<and> intervals kw = []) \<or>
         (e = TypeError \<and>
          (\<exists>r c. session (length (requests w)) (lookup_request self hw) = Returns r \<and>
                 status_code r = 200 \<and> content r = Inr c \<and> node_invalid c = Inl TypeError))"
proof -
  have ct: "contains k c = Inl x \<Longrightarrow> x = TypeError" for k c x
    by (cases c) auto
  have ni: "node_invalid c = Inl x \<Longrightarrow> x = TypeError" for c x
    by (cases c) (auto simp: node_invalid_def map_of_eq_None_iff
        split: sum.splits bool.splits option.splits dest: ct)
  have hb: "node_invalid c = Inr False \<Longrightarrow> contains ''heartbeat_timeout'' c \<noteq> Inl x" for c x
    by (auto dest!: node_invalid_False_dict)
  from assms show ?thesis
    by (auto simp: do_lookup_def request_lookup codes_OK_def retry_def
        split: transport_result.splits if_splits sum.splits bool.splits prod.splits
        dest: next_interval_Raise ni hb)
qed

lemma do_lookup_rejects:
  assumes "session (length (requests w)) (lookup_request self hw) = Returns r"
    and "content r = Inr (JDict kvs)"
    and "map_of kvs ''node'' = None \<or>
         (\<exists>fields. map_of kvs ''node'' = Some (JDict fields) \<and> map_of fields ''uuid'' = None) \<or>
         ((\<exists>fields. map_of kvs ''node'' = Some (JDict fields)) \<and>
            map_of kvs ''heartbeat_timeout'' = None)"
  shows "\<exists>msg. do_lookup self session hw t kw w =
           retry msg t kw (w\<lparr>requests := requests w @ [lookup_request self hw]\<rparr>)"
proof (cases "status_code r = 200")
  case False
  with assms(1) show ?thesis
    by (auto simp: do_lookup_bad_status)
next
  case True
  from assms(3) have "node_invalid (JDict kvs) = Inr True \<or>
     (node_invalid (JDict kvs) = Inr False \<and> contains ''heartbeat_timeout'' (JDict kvs) = Inr False)"
    by (auto simp: node_invalid_def map_of_eq_None_iff split: sum.splits bool.splits option.splits)
  with assms(1,2) True show ?thesis
    by (auto simp: do_lookup_body)
qed

lemma node_invalid_number_body: "node_invalid number_body = Inl TypeError"
  by (simp add: node_invalid_def number_body_def)

lemma node_invalid_string_node_body: "node_invalid string_node_body = Inr False"
  by (simp add: node_invalid_def string_node_body_def)

lemma contains_heartbeat_string_node_body:
  "contains ''heartbeat_timeout'' string_node_body = Inr True"
  by (simp add: string_node_body_def)

text \<open>
  C3 at a failing input. The response has status 200 and the body \<^verbatim>\<open>5\<close>, which
  \<^verbatim>\<open>json.loads\<close> decodes. The test \<^verbatim>\<open>'node' not in content\<close> raises \<^verbatim>\<open>TypeError\<close> on
  the integer; nothing catches it, no warning is logged, and the error comes out of
  \<^verbatim>\<open>lookup_node\<close> after a single request.
\<close>

theorem number_body_escapes:
  "do_lookup client0 (answering (ok_with number_body)) JNull 3
     \<lparr>intervals = [1], total_time = 0\<rparr> world0 =
     (Raise TypeError, \<lparr>intervals = [1], total_time = 0\<rparr>,
      \<lparr>requests = [lookup_request client0 JNull], warnings = [], slept = []\<rparr>) \<and>
   lookup_node client0 (answering (ok_with number_body)) JNull 3 1 world0 =
     Some (Inl TypeError,
           \<lparr>requests = [lookup_request client0 JNull], warnings = [], slept = []\<rparr>)"
proof -
  have step: "do_lookup client0 (answering (ok_with number_body)) JNull 3
     \<lparr>intervals = [1], total_time = 0\<rparr> world0 =
     (Raise TypeError, \<lparr>intervals = [1], total_time = 0\<rparr>,
      \<lparr>requests = [lookup_request client0 JNull], warnings = [], slept = []\<rparr>)"
    by (simp add: do_lookup_body[where r = "ok_with number_body" and c = number_body]
        answering_def ok_with_def node_invalid_number_body world0_def)
  then show ?thesis
    by (simp add: lookup_node_def timer_start_wait_def dlc_Raise)
qed

text \<open>
  C6 at a failing input. The response has status 200 and the body
  \<^verbatim>\<open>{"node": "uuid", "heartbeat_timeout": 300}\<close>: the node is a string and has no
  \<^verbatim>\<open>uuid\<close> field. The test \<^verbatim>\<open>'uuid' not in content['node']\<close> is a substring test on
  that string, so the body passes and \<^verbatim>\<open>lookup_node\<close> returns it as the lookup result.
\<close>

theorem string_node_accepted:
  "getitem string_node_body ''node'' = Inr (JStr ''uuid'') \<and>
   getitem (JStr ''uuid'') ''uuid'' = Inl TypeError \<and>
   do_lookup client0 (answering (ok_with string_node_body)) JNull 3
     \<lparr>intervals = [1], total_time = 0\<rparr> world0 =
     (LoopingCallDone (Some string_node_body), \<lparr>intervals = [1], total_time = 0\<rparr>,
      \<lparr>requests = [lookup_request client0 JNull], warnings = [], slept = []\<rparr>) \<and>
   lookup_node client0 (answering (ok_with string_node_body)) JNull 3 1 world0 =
     Some (Inr string_node_body,
           \<lparr>requests = [lookup_request client0 JNull], warnings = [], slept = []\<rparr>)"
proof -
  have step: "do_lookup client0 (answering (ok_with string_node_body)) JNull 3
     \<lparr>intervals = [1], total_time = 0\<rparr> world0 =
     (LoopingCallDone (Some string_node_body), \<lparr>intervals = [1], total_time = 0\<rparr>,
      \<lparr>requests = [lookup_request client0 JNull], warnings = [], slept = []\<rparr>)"
    by (simp add: do_lookup_body[where r = "ok_with string_node_body" and c = string_node_body]
        answering_def ok_with_def node_invalid_string_node_body
        contains_heartbeat_string_node_body world0_def)
  have ne: "string_node_body \<noteq> JBool True"
    by (simp add: string_node_body_def)
  have g: "getitem string_node_body ''node'' = Inr (JStr ''uuid'')"
    by (simp add: string_node_body_def)
  from step ne g show ?thesis
    by (simp add: lookup_node_def timer_start_wait_def dlc_Done)
qed

subsection \<open>Heartbeat\<close>

lemma request_heartbeat:
  "request self session ''POST'' (heartbeat_path uuid)
     (Some (JDict [(''agent_url'', JStr (get_agent_url advertise_address))])) w =
   (session (length (requests w)) (heartbeat_request self uuid advertise_address),
    w\<lparr>requests := requests w @ [heartbeat_request self uuid advertise_address]\<rparr>)"
  by (simp add: request_def heartbeat_request_def Let_def)

text \<open>
  C7. \<^verbatim>\<open>heartbeat\<close> sends exactly one request and does nothing else (no retry, no sleep).
  With \<open>answer\<close> what the transport does with that request: the call returns \<open>x\<close> exactly
  when the transport returned a response with status 204 whose \<^verbatim>\<open>Heartbeat-Before\<close> header
  is present and parses to \<open>x\<close>. Otherwise it raises \<^verbatim>\<open>HeartbeatError\<close>: with the
  transport's own message when the transport raised, with the status code in the message
  when the status is not 204, with \<^verbatim>\<open>Missing Heartbeat-Before header\<close> when the header is
  absent, and with \<^verbatim>\<open>Invalid Heartbeat-Before header\<close> when it does not parse.
\<close>

theorem heartbeat_outcomes:
  assumes "heartbeat self session float uuid advertise_address w = (res, w')"
    and "answer = session (length (requests w)) (heartbeat_request self uuid advertise_address)"
  shows "w' = w\<lparr>requests := requests w @ [heartbeat_request self uuid advertise_address]\<rparr> \<and>
         (\<forall>x. res = Inr x \<longleftrightarrow>
            (\<exists>r h. answer = Returns r \<and> status_code r = 204 \<and>
                   headers r ''Heartbeat-Before'' = Some h \<and> float h = Some x)) \<and>
         (\<forall>e. answer = Raises e \<longrightarrow> res = Inl (HeartbeatError e)) \<and>
         (\<forall>r. answer = Returns r \<and> status_code r \<noteq> 204 \<longrightarrow>
            res = Inl (HeartbeatError (''Invalid status code: '' @ str_int (status_code r)))) \<and>
         (\<forall>r. answer = Returns r \<and> status_code r = 204 \<and>
              headers r ''Heartbeat-Before'' = None \<longrightarrow>
            res = Inl (HeartbeatError ''Missing Heartbeat-Before header'')) \<and>
         (\<forall>r h. answer = Returns r \<and> status_code r = 204 \<and>
              headers r ''Heartbeat-Before'' = Some h \<and> float h = None \<longrightarrow>
            res = Inl (HeartbeatError ''Invalid Heartbeat-Before header'')) \<and>
         ((\<exists>x. res = Inr x) \<or> (\<exists>msg. res = Inl (HeartbeatError msg)))"
  using assms(1)
  unfolding assms(2) heartbeat_def request_heartbeat codes_NO_CONTENT_def
  by (auto split: transport_result.splits option.splits if_splits)

theorem heartbeat_outcomes_witness:
  "heartbeat client0 (answering (heartbeat_response 204 (Some ''10.5''))) float_example ''abc''
     (''10.0.0.1'', 9999) world0 =
   (Inr (21, 2),
    \<lparr>requests = [heartbeat_request client0 ''abc'' (''10.0.0.1'', 9999)], warnings = [],
     slept = []\<rparr>)"
proof -
  let ?session = "answering (heartbeat_response 204 (Some ''10.5''))"
  let ?h = "heartbeat client0 ?session float_example ''abc'' (''10.0.0.1'', 9999) world0"
  note inst = heartbeat_outcomes[where res = "fst ?h" and w' = "snd ?h", OF prod.collapse[symmetric] refl]
  from inst have w: "snd ?h =
      world0\<lparr>requests := requests world0 @ [heartbeat_request client0 ''abc'' (''10.0.0.1'', 9999)]\<rparr>"
    by blast
  from inst have "fst ?h = Inr (21, 2) \<longleftrightarrow>
      (\<exists>r h. ?session (length (requests world0))
                (heartbeat_request client0 ''abc'' (''10.0.0.1'', 9999)) = Returns r \<and>
             status_code r = 204 \<and> headers r ''Heartbeat-Before'' = Some h \<and>
             float_example h = Some (21, 2))"
    by blast
  moreover have "\<exists>r h. ?session (length (requests world0))
                (heartbeat_request client0 ''abc'' (''10.0.0.1'', 9999)) = Returns r \<and>
             status_code r = 204 \<and> headers r ''Heartbeat-Before'' = Some h \<and>
             float_example h = Some (21, 2)"
    by (simp add: answering_def heartbeat_response_def float_example_def)
  ultimately have "fst ?h = Inr (21, 2)"
    by blast
  with w show ?thesis
    by (simp add: prod_eq_iff world0_def)
qed

lemma heartbeat_examples:
  "fst (heartbeat client0 (answering (heartbeat_response 204 None)) float_example ''abc''
     (''10.0.0.1'', 9999) world0) = Inl (HeartbeatError ''Missing Heartbeat-Before header'')"
  "fst (heartbeat client0 (answering (heartbeat_response 204 (Some ''notanumber'')))
     float_example ''abc'' (''10.0.0.1'', 9999) world0) =
   Inl (HeartbeatError ''Invalid Heartbeat-Before header'')"
  "fst (heartbeat client0 (\<lambda>n req. Raises ''Connection refused'') float_example ''abc''
     (''10.0.0.1'', 9999) world0) = Inl (HeartbeatError ''Connection refused'')"
  by (simp_all add: heartbeat_def request_heartbeat answering_def heartbeat_response_def
      float_example_def codes_NO_CONTENT_def)

subsection \<open>No backoff state outlives a call\<close>

text \<open>
  A call of \<^verbatim>\<open>lookup_node\<close> in a world with a history does what the call does in the empty
  world against the transport as it answers from then on, and appends it to the history.
\<close>

lemma append_world0 [simp]: "append_world w world0 = w"
  by (simp add: append_world_def world0_def)

lemma sleep_append: "sleep idle (append_world w d) = append_world w (sleep idle d)"
  by (simp add: sleep_def append_world_def)

lemma do_lookup_append:
  "do_lookup self session hw t kw (append_world w d) =
     (case do_lookup self (shifted session (length (requests w))) hw t kw d of
        (out, kw', d') \<Rightarrow> (out, kw', append_world w d'))"
  by (simp add: do_lookup_def request_lookup retry_def log_warning_def shifted_def
      append_world_def
      split: transport_result.split sum.split bool.split prod.split)

lemma after_retries_append:
  "after_retries n (do_lookup self session hw t) kw (append_world w d) =
     map_option (\<lambda>(kw', d'). (kw', append_world w d'))
       (after_retries n (do_lookup self (shifted session (length (requests w))) hw t) kw d)"
proof (induction n arbitrary: kw d)
  case 0
  then show ?case by simp
next
  case (Suc n)
  obtain out kw1 d1 where
    step: "do_lookup self (shifted session (length (requests w))) hw t kw d = (out, kw1, d1)"
    by (cases "do_lookup self (shifted session (length (requests w))) hw t kw d") auto
  show ?case
    by (cases out) (simp_all add: do_lookup_append step sleep_append Suc.IH)
qed

lemma dlc_append:
  "dynamic_looping_call (do_lookup self session hw t) kw (append_world w d) =
     map_option (\<lambda>(r, kw', d'). (r, kw', append_world w d'))
       (dynamic_looping_call (do_lookup self (shifted session (length (requests w))) hw t) kw d)"
proof -
  let ?f = "do_lookup self session hw t"
  let ?g = "do_lookup self (shifted session (length (requests w))) hw t"
  have fwd: "dynamic_looping_call ?f kw (append_world w d) = Some (r, kw', append_world w d')"
    if "dynamic_looping_call ?g kw d = Some (r, kw', d')" for r kw' d'
  proof -
    from dlc_SomeD[OF that] obtain n kw1 d1 where
      run: "after_retries n ?g kw d = Some (kw1, d1)" and
      fin: "(\<exists>rv. ?g kw1 d1 = (LoopingCallDone rv, kw', d') \<and>
                  r = Inr (case rv of None \<Rightarrow> JBool True | Some v \<Rightarrow> v)) \<or>
            (\<exists>e. ?g kw1 d1 = (Raise e, kw', d') \<and> r = Inl e)"
      by auto
    from run have "after_retries n ?f kw (append_world w d) = Some (kw1, append_world w d1)"
      by (simp add: after_retries_append)
    then have "dynamic_looping_call ?f kw (append_world w d) =
               dynamic_looping_call ?f kw1 (append_world w d1)"
      by (rule dlc_after_retries)
    also from fin have "\<dots> = Some (r, kw', append_world w d')"
      by (subst dynamic_looping_call.simps) (auto simp: do_lookup_append)
    finally show ?thesis .
  qed
  have bwd: "\<exists>r kw' d'. dynamic_looping_call ?g kw d = Some (r, kw', d') \<and>
                y = (r, kw', append_world w d')"
    if "dynamic_looping_call ?f kw (append_world w d) = Some y" for y
  proof -
    from dlc_SomeD[OF that] obtain n kw1 W1 where
      run: "after_retries n ?f kw (append_world w d) = Some (kw1, W1)" and
      fin: "(\<exists>rv. ?f kw1 W1 = (LoopingCallDone rv, snd y) \<and>
                  fst y = Inr (case rv of None \<Rightarrow> JBool True | Some v \<Rightarrow> v)) \<or>
            (\<exists>e. ?f kw1 W1 = (Raise e, snd y) \<and> fst y = Inl e)"
      by blast
    from run obtain d1 where run': "after_retries n ?g kw d = Some (kw1, d1)"
      and W1: "W1 = append_world w d1"
      by (auto simp: after_retries_append)
    obtain out kw' d' where g: "?g kw1 d1 = (out, kw', d')"
      by (cases "?g kw1 d1") auto
    from fin g W1 have y: "snd y = (kw', append_world w d')"
      and out: "(\<exists>rv. out = LoopingCallDone rv \<and>
                  fst y = Inr (case rv of None \<Rightarrow> JBool True | Some v \<Rightarrow> v)) \<or>
            (\<exists>e. out = Raise e \<and> fst y = Inl e)"
      by (auto simp: do_lookup_append)
    have "dynamic_looping_call ?g kw d = dynamic_looping_call ?g kw1 d1"
      by (rule dlc_after_retries[OF run'])
    also from out g have "\<dots> = Some (fst y, kw', d')"
      by (subst dynamic_looping_call.simps) auto
    finally show ?thesis
      using y by (cases y) auto
  qed
  show ?thesis
  proof (cases "dynamic_looping_call ?g kw d")
    case None
    have "dynamic_looping_call ?f kw (append_world w d) = None"
    proof (rule ccontr)
      assume "dynamic_looping_call ?f kw (append_world w d) \<noteq> None"
      then obtain y where "dynamic_looping_call ?f kw (append_world w d) = Some y"
        by auto
      from bwd[OF this] None show False
        by simp
    qed
    with None show ?thesis
      by simp
  next
    case (Some y)
    then show ?thesis
      using fwd[of "fst y" "fst (snd y)" "snd (snd y)"] by (cases y) auto
  qed
qed

lemma lookup_node_append:
  "lookup_node self session hw t s (append_world w d) =
     map_option (\<lambda>(r, d'). (r, append_world w d'))
       (lookup_node self (shifted session (length (requests w))) hw t s d)"
  by (simp add: lookup_node_def timer_start_wait_def dlc_append
      split: option.split sum.split prod.split)

subsection \<open>The retry lists in the store\<close>

text \<open>
  The functions on the store do what the functions on the retry state do, on the two
  objects that they are given, and leave every other object alone.
\<close>

lemma put_nth:
  assumes "iv < length base" "tt < length base" "iv \<noteq> tt"
  shows "put iv tt kw base ! iv = intervals kw" "put iv tt kw base ! tt = [total_time kw]"
    "length (put iv tt kw base) = length base"
  using assms by (simp_all add: put_def)

lemma put_put:
  assumes "iv < length base" "tt < length base" "iv \<noteq> tt"
  shows "(put iv tt kw base)[tt := [t], iv := ivs] = put iv tt \<lparr>intervals = ivs, total_time = t\<rparr> base"
  using assms by (simp add: put_def list_eq_iff_nth_eq nth_list_update)

lemma retry_state_update:
  "kw\<lparr>total_time := t, intervals := ivs\<rparr> = \<lparr>intervals = ivs, total_time = t\<rparr>"
  by (cases kw) simp

lemma next_interval_store_put:
  assumes "iv < length base" "tt < length base" "iv \<noteq> tt"
  shows "next_interval_store timeout iv tt (put iv tt kw base) =
         (case next_interval timeout kw of (out, kw') \<Rightarrow> (out, put iv tt kw' base))"
proof -
  have upd: "(put iv tt kw base)[tt := [t]] ! iv = intervals kw" for t
    using assms by (simp add: put_def)
  show ?thesis
    using assms
    by (simp add: next_interval_store_def next_interval_def Let_def put_nth upd put_put
        retry_state_update)
qed

lemma do_lookup_store_put:
  assumes "iv < length base" "tt < length base" "iv \<noteq> tt"
  shows "do_lookup_store self session hw timeout (Some iv) (Some tt) (put iv tt kw base) w =
         (case do_lookup self session hw timeout kw w of
            (out, kw', w') \<Rightarrow> (out, put iv tt kw' base, w'))"
  by (simp add: do_lookup_store_def do_lookup_def retry_store_def retry_def
      next_interval_store_put[OF assms] request_lookup
      split: transport_result.split sum.split bool.split prod.split)

lemma after_retries_map_state:
  assumes sim: "\<And>k w. g (\<phi> k) w = (case f k w of (out, k', w') \<Rightarrow> (out, \<phi> k', w'))"
  shows "after_retries n g (\<phi> k) w =
         map_option (\<lambda>(k', w'). (\<phi> k', w')) (after_retries n f k w)"
proof (induction n arbitrary: k w)
  case 0
  then show ?case by simp
next
  case (Suc n)
  obtain out k1 w1 where step: "f k w = (out, k1, w1)"
    by (cases "f k w") auto
  show ?case
    by (cases out) (simp_all add: sim step Suc.IH)
qed

lemma dlc_map_state:
  assumes sim: "\<And>k w. g (\<phi> k) w = (case f k w of (out, k', w') \<Rightarrow> (out, \<phi> k', w'))"
  shows "dynamic_looping_call g (\<phi> k) w =
         map_option (\<lambda>(r, k', w'). (r, \<phi> k', w')) (dynamic_looping_call f k w)"
proof -
  have fwd: "dynamic_looping_call g (\<phi> k) w = Some (r, \<phi> k', w')"
    if "dynamic_looping_call f k w = Some (r, k', w')" for r k' w'
  proof -
    from dlc_SomeD[OF that] obtain n k1 w1 where
      run: "after_retries n f k w = Some (k1, w1)" and
      fin: "(\<exists>rv. f k1 w1 = (LoopingCallDone rv, k', w') \<and>
                  r = Inr (case rv of None \<Rightarrow> JBool True | Some v \<Rightarrow> v)) \<or>
            (\<exists>e. f k1 w1 = (Raise e, k', w') \<and> r = Inl e)"
      by auto
    from run have "after_retries n g (\<phi> k) w = Some (\<phi> k1, w1)"
      by (simp add: after_retries_map_state[of g \<phi> f, OF sim])
    then have "dynamic_looping_call g (\<phi> k) w = dynamic_looping_call g (\<phi> k1) w1"
      by (rule dlc_after_retries)
    also from fin have "\<dots> = Some (r, \<phi> k', w')"
      by (subst dynamic_looping_call.simps) (auto simp: sim)
    finally show ?thesis .
  qed
  have bwd: "\<exists>r k' w'. dynamic_looping_call f k w = Some (r, k', w') \<and> y = (r, \<phi> k', w')"
    if "dynamic_looping_call g (\<phi> k) w = Some y" for y
  proof -
    from dlc_SomeD[OF that] obtain n K W where
      run: "after_retries n g (\<phi> k) w = Some (K, W)" and
      fin: "(\<exists>rv. g K W = (LoopingCallDone rv, snd y) \<and>
                  fst y = Inr (case rv of None \<Rightarrow> JBool True | Some v \<Rightarrow> v)) \<or>
            (\<exists>e. g K W = (Raise e, snd y) \<and> fst y = Inl e)"
      by blast
    from run obtain k1 where run': "after_retries n f k w = Some (k1, W)" and K: "K = \<phi> k1"
      by (auto simp: after_retries_map_state[of g \<phi> f, OF sim])
    obtain out k' w' where f: "f k1 W = (out, k', w')"
      by (cases "f k1 W") auto
    from fin f K have y: "snd y = (\<phi> k', w')"
      and out: "(\<exists>rv. out = LoopingCallDone rv \<and>
                  fst y = Inr (case rv of None \<Rightarrow> JBool True | Some v \<Rightarrow> v)) \<or>
            (\<exists>e. out = Raise e \<and> fst y = Inl e)"
      by (auto simp: sim)
    have "dynamic_looping_call f k w = dynamic_looping_call f k1 W"
      by (rule dlc_after_retries[OF run'])
    also from out f have "\<dots> = Some (fst y, k', w')"
      by (subst dynamic_looping_call.simps) auto
    finally show ?thesis
      using y by (cases y) auto
  qed
  show ?thesis
  proof (cases "dynamic_looping_call f k w")
    case None
    have "dynamic_looping_call g (\<phi> k) w = None"
    proof (rule ccontr)
      assume "dynamic_looping_call g (\<phi> k) w \<noteq> None"
      then obtain y where "dynamic_looping_call g (\<phi> k) w = Some y"
        by auto
      from bwd[OF this] None show False
        by simp
    qed
    with None show ?thesis
      by simp
  next
    case (Some y)
    then show ?thesis
      using fwd[of "fst y" "fst (snd y)" "snd (snd y)"] by (cases y) auto
  qed
qed

lemma timer_start_wait_store_eq:
  "timer_start_wait_store self session hw timeout s st w =
   map_option (\<lambda>(r, kw', w'). (r, st @ [intervals kw', [total_time kw']], w'))
     (timer_start_wait self session hw timeout s w)"
proof -
  let ?base = "st @ [[s], [0]]"
  let ?iv = "length st"
  let ?tt = "Suc (length st)"
  have put: "put ?iv ?tt kw ?base = st @ [intervals kw, [total_time kw]]" for kw
    by (simp add: put_def list_update_append)
  have sim: "do_lookup_store self session hw timeout (Some ?iv) (Some ?tt) (put ?iv ?tt kw ?base) w =
         (case do_lookup self session hw timeout kw w of
            (out, kw', w') \<Rightarrow> (out, put ?iv ?tt kw' ?base, w'))" for kw w
    by (rule do_lookup_store_put) simp_all
  have "timer_start_wait_store self session hw timeout s st w =
        dynamic_looping_call (do_lookup_store self session hw timeout (Some ?iv) (Some ?tt))
          (put ?iv ?tt \<lparr>intervals = [s], total_time = 0\<rparr> ?base) w"
    by (simp add: timer_start_wait_store_def put Let_def)
  also have "\<dots> = map_option (\<lambda>(r, kw', w'). (r, put ?iv ?tt kw' ?base, w'))
     (dynamic_looping_call (do_lookup self session hw timeout) \<lparr>intervals = [s], total_time = 0\<rparr> w)"
    by (rule dlc_map_state[where g = "do_lookup_store self session hw timeout (Some ?iv) (Some ?tt)"
          and \<phi> = "\<lambda>kw. put ?iv ?tt kw ?base" and f = "do_lookup self session hw timeout"])
      (rule sim)
  finally show ?thesis
    by (simp add: put timer_start_wait_def)
qed


lemma do_lookup_final:
  assumes "do_lookup self session hw timeout kw w = (out, kw', w')"
    and "\<forall>idle. out \<noteq> Return idle"
  shows "kw' = kw"
proof -
  have "next_interval timeout kw = (out, kw') \<Longrightarrow> kw' = kw"
    using assms(2) by (auto simp: next_interval_def Let_def split: if_splits)
  with do_lookup_cases[OF assms(1)] show ?thesis
    by auto
qed

lemma timer_final_state:
  fixes s :: int
  assumes "timer_start_wait self session hw timeout s w = Some (x, kw', w')"
  shows "\<exists>n. intervals kw' = map (\<lambda>N. s * 2 ^ N) [0..<Suc n] \<and>
             total_time kw' = sum_list (map (\<lambda>N. s * 2 ^ N) [1..<Suc n])"
proof -
  let ?f = "do_lookup self session hw timeout"
  from assms have "dynamic_looping_call ?f \<lparr>intervals = [s], total_time = 0\<rparr> w = Some (x, kw', w')"
    by (simp add: timer_start_wait_def)
  from dlc_SomeD[OF this] obtain n kw1 w1 out where
    run: "after_retries n ?f \<lparr>intervals = [s], total_time = 0\<rparr> w = Some (kw1, w1)" and
    fin: "?f kw1 w1 = (out, kw', w')" and out: "\<forall>idle. out \<noteq> Return idle"
    by auto
  from do_lookup_final[OF fin out] run_state[OF run] show ?thesis
    by blast
qed

lemma lookup_node_store_eq:
  "lookup_node_store self session hw timeout s st w =
     (case timer_start_wait self session hw timeout s w of
        None \<Rightarrow> None
      | Some (x, kw', w') \<Rightarrow>
          (case lookup_node self session hw timeout s w of
             None \<Rightarrow> None
           | Some (r, w'') \<Rightarrow> Some (r, st @ [intervals kw', [total_time kw']], w')))"
  by (simp add: lookup_node_store_def lookup_node_def timer_start_wait_store_eq
      split: option.split sum.split prod.split)

lemma timer_start_wait_replay:
  assumes first: "timer_start_wait self session hw timeout s w = Some (x, kw', w1)"
    and same: "\<forall>i. session (length (requests w1) + i) = session (length (requests w) + i)"
  shows "\<exists>d. w1 = append_world w d \<and>
             timer_start_wait self session hw timeout s w1 = Some (x, kw', append_world w1 d)"
proof -
  have eq: "timer_start_wait self session hw timeout s (append_world v world0) =
     map_option (\<lambda>(r, kw', d'). (r, kw', append_world v d'))
       (timer_start_wait self (shifted session (length (requests v))) hw timeout s world0)" for v
    unfolding timer_start_wait_def by (rule dlc_append)
  from first eq[of w] obtain d where
    fresh: "timer_start_wait self (shifted session (length (requests w))) hw timeout s world0 =
              Some (x, kw', d)"
    and w1: "w1 = append_world w d"
    by (cases "timer_start_wait self (shifted session (length (requests w))) hw timeout s world0")
      auto
  from same have "shifted session (length (requests w1)) = shifted session (length (requests w))"
    by (simp add: shifted_def fun_eq_iff)
  with fresh eq[of w1] have "timer_start_wait self session hw timeout s w1 =
      Some (x, kw', append_world w1 d)"
    by simp
  with w1 show ?thesis
    by blast
qed

text \<open>
  The store is where retry state could pass from one call to the next: two direct calls of
  \<^verbatim>\<open>_do_lookup\<close> that leave the list arguments out share the default lists, and the
  second goes on from where the first stopped (interval 4 after interval 2).
\<close>

lemma defaults_are_shared:
  "do_lookup_store client0 (answering (status_only 500)) JNull 10 None None store0 world0 =
     (Return 2, [[1, 2], [2]],
      \<lparr>requests = [lookup_request client0 JNull], warnings = [InvalidStatusCode 500],
       slept = []\<rparr>)"
  "do_lookup_store client0 (answering (status_only 500)) JNull 10 None None [[1, 2], [2]]
     \<lparr>requests = [lookup_request client0 JNull], warnings = [InvalidStatusCode 500],
      slept = []\<rparr> =
     (Return 4, [[1, 2, 4], [6]],
      \<lparr>requests = [lookup_request client0 JNull, lookup_request client0 JNull],
       warnings = [InvalidStatusCode 500, InvalidStatusCode 500], slept = []\<rparr>)"
  by (simp_all add: do_lookup_store_def request_lookup answering_def status_only_def
      codes_OK_def retry_store_def next_interval_store_def log_warning_def
      default_intervals_def default_total_time_def store0_def world0_def)

lemma timer_alternating:
  assumes "even (length (requests w))"
  shows "timer_start_wait client0 alternating JNull 3 1 w =
    Some (Inr valid_body, \<lparr>intervals = [1, 2], total_time = 2\<rparr>,
          w\<lparr>requests := requests w @ [lookup_request client0 JNull, lookup_request client0 JNull],
            warnings := warnings w @ [InvalidStatusCode 500], slept := slept w @ [2]\<rparr>)"
proof -
  let ?f = "do_lookup client0 alternating JNull 3"
  let ?w1 = "w\<lparr>requests := requests w @ [lookup_request client0 JNull],
               warnings := warnings w @ [InvalidStatusCode 500], slept := slept w @ [2]\<rparr>"
  let ?w2 = "w\<lparr>requests := requests w @ [lookup_request client0 JNull, lookup_request client0 JNull],
            warnings := warnings w @ [InvalidStatusCode 500], slept := slept w @ [2]\<rparr>"
  have run: "after_retries 1 ?f \<lparr>intervals = [1], total_time = 0\<rparr> w =
               Some (\<lparr>intervals = [1, 2], total_time = 2\<rparr>, ?w1)"
    using assms
    by (simp add: do_lookup_bad_status[where r = "status_only 500"] alternating_def
      status_only_def retry_def next_interval_def log_warning_def sleep_def)
  have step: "?f \<lparr>intervals = [1, 2], total_time = 2\<rparr> ?w1 =
               (LoopingCallDone (Some valid_body), \<lparr>intervals = [1, 2], total_time = 2\<rparr>, ?w2)"
    using assms
    by (simp add: do_lookup_body[where r = "ok_with valid_body" and c = valid_body]
      alternating_def ok_with_def node_invalid_valid_body contains_heartbeat_valid_body)
  show ?thesis
    unfolding timer_start_wait_def dlc_after_retries[OF run]
    using step by (simp add: dlc_Done)
qed

lemma lookup_store_alternating:
  assumes "even (length (requests w))"
  shows "lookup_node_store client0 alternating JNull 3 1 st w =
    Some (Inr valid_body, st @ [[1, 2], [2]],
          w\<lparr>requests := requests w @ [lookup_request client0 JNull, lookup_request client0 JNull],
            warnings := warnings w @ [InvalidStatusCode 500], slept := slept w @ [2]\<rparr>)"
proof -
  have ne: "valid_body \<noteq> JBool True"
    by (simp add: valid_body_def)
  with timer_alternating[OF assms] show ?thesis
    by (simp add: lookup_node_store_eq lookup_node_def)
qed

text \<open>
  C8. \<^verbatim>\<open>lookup_node\<close> makes its retry state anew on every call: two new list objects,
  \<open>intervals\<close> seeded with \<open>starting_interval\<close> first and the counter \<open>total_time\<close>
  seeded with 0. When the call returns, with a result or with an error, the store holds
  these two lists after all that it held before (they hold \<open>s \<cdot> 2^N\<close> for \<open>N = 0, \<dots>, n\<close>
  and the sum of the intervals after the seed), and every object that existed before the
  call, the default lists of \<^verbatim>\<open>_do_lookup\<close> and the lists of earlier calls among them,
  is unchanged. The call reads none of them: from any other store \<open>st2\<close> it returns the
  same result with the same effects and leaves the same two lists. So a second call, made
  in the store that the first has left, against a transport that answers it as it answered
  the first, returns what the first returned, with the same requests, warnings and sleeps
  and again the same two lists, built anew from the seed.
\<close>

theorem retry_state_fresh_per_call:
  fixes s :: int
  assumes call: "lookup_node_store self session hardware_info timeout s st w = Some (r, st', w')"
  shows "length st' = length st + 2 \<and> take (length st) st' = st \<and>
         (\<exists>n. st' ! length st = map (\<lambda>N. s * 2 ^ N) [0..<Suc n] \<and>
              st' ! Suc (length st) = [sum_list (map (\<lambda>N. s * 2 ^ N) [1..<Suc n])]) \<and>
         lookup_node_store self session hardware_info timeout s st2 w =
           Some (r, st2 @ drop (length st) st', w') \<and>
         ((\<forall>i. session (length (requests w') + i) = session (length (requests w) + i)) \<longrightarrow>
          (\<exists>d. w' = append_world w d \<and>
               lookup_node_store self session hardware_info timeout s st' w' =
                 Some (r, st' @ drop (length st) st', append_world w' d)))"
proof -
  from call obtain x kw' w'' where
    tw: "timer_start_wait self session hardware_info timeout s w = Some (x, kw', w')" and
    ln: "lookup_node self session hardware_info timeout s w = Some (r, w'')" and
    st': "st' = st @ [intervals kw', [total_time kw']]"
    by (auto simp: lookup_node_store_eq split: option.splits)
  from tw ln have w'': "w'' = w'"
    by (auto simp: lookup_node_def split: sum.splits if_splits)
  from timer_final_state[OF tw] obtain n where
    n: "intervals kw' = map (\<lambda>N. s * 2 ^ N) [0..<Suc n]"
       "total_time kw' = sum_list (map (\<lambda>N. s * 2 ^ N) [1..<Suc n])"
    by blast
  have shape: "length st' = length st + 2 \<and> take (length st) st' = st \<and>
         (\<exists>n. st' ! length st = map (\<lambda>N. s * 2 ^ N) [0..<Suc n] \<and>
              st' ! Suc (length st) = [sum_list (map (\<lambda>N. s * 2 ^ N) [1..<Suc n])])"
    using n unfolding st' by (auto simp: nth_append simp del: upt_Suc)
  have any: "lookup_node_store self session hardware_info timeout s st2 w =
           Some (r, st2 @ drop (length st) st', w')"
    using tw ln by (simp add: lookup_node_store_eq st')
  have again: "\<exists>d. w' = append_world w d \<and>
               lookup_node_store self session hardware_info timeout s st' w' =
                 Some (r, st' @ drop (length st) st', append_world w' d)"
    if same: "\<forall>i. session (length (requests w') + i) = session (length (requests w) + i)"
  proof -
    from timer_start_wait_replay[OF tw same] obtain d where
      d: "w' = append_world w d" and
      tw2: "timer_start_wait self session hardware_info timeout s w' =
              Some (x, kw', append_world w' d)"
      by blast
    from tw ln have "lookup_node self session hardware_info timeout s w' =
              Some (r, append_world w' d)"
      using tw2 by (auto simp: lookup_node_def split: sum.splits if_splits)
    with tw2 have "lookup_node_store self session hardware_info timeout s st' w' =
                 Some (r, st' @ drop (length st) st', append_world w' d)"
      by (simp add: lookup_node_store_eq st')
    with d show ?thesis
      by blast
  qed
  from shape any again show ?thesis
    by blast
qed

theorem retry_state_fresh_per_call_witness:
  "lookup_node_store client0 alternating JNull 3 1 store0 world0 =
     Some (Inr valid_body, [[1], [0], [1, 2], [2]],
           \<lparr>requests = [lookup_request client0 JNull, lookup_request client0 JNull],
            warnings = [InvalidStatusCode 500], slept = [2]\<rparr>) \<and>
   lookup_node_store client0 alternating JNull 3 1 [[1], [0], [1, 2], [2]]
       \<lparr>requests = [lookup_request client0 JNull, lookup_request client0 JNull],
        warnings = [InvalidStatusCode 500], slept = [2]\<rparr> =
     Some (Inr valid_body, [[1], [0], [1, 2], [2], [1, 2], [2]],
           \<lparr>requests = [lookup_request client0 JNull, lookup_request client0 JNull,
                        lookup_request client0 JNull, lookup_request client0 JNull],
            warnings = [InvalidStatusCode 500, InvalidStatusCode 500], slept = [2, 2]\<rparr>)"
proof -
  let ?w1 = "\<lparr>requests = [lookup_request client0 JNull, lookup_request client0 JNull],
            warnings = [InvalidStatusCode 500], slept = [2]\<rparr>"
  let ?st1 = "[[1], [0], [1, 2], [2]]"
  have first: "lookup_node_store client0 alternating JNull 3 1 store0 world0 =
                 Some (Inr valid_body, ?st1, ?w1)"
    using lookup_store_alternating[of world0 store0] by (simp add: world0_def store0_def)
  have same: "\<forall>i. alternating (length (requests ?w1) + i) =
                   alternating (length (requests world0) + i)"
    by (simp add: alternating_def world0_def fun_eq_iff)
  from retry_state_fresh_per_call[OF first] have
    "(\<forall>i. alternating (length (requests ?w1) + i) = alternating (length (requests world0) + i)) \<longrightarrow>
      (\<exists>d. ?w1 = append_world world0 d \<and>
           lookup_node_store client0 alternating JNull 3 1 ?st1 ?w1 =
             Some (Inr valid_body, ?st1 @ drop (length store0) ?st1, append_world ?w1 d))"
    by blast
  from this[rule_format, OF same[rule_format]] obtain d where
    "?w1 = append_world world0 d"
    and second: "lookup_node_store client0 alternating JNull 3 1 ?st1 ?w1 =
             Some (Inr valid_body, ?st1 @ drop (length store0) ?st1, append_world ?w1 d)"
    by blast
  then have "d = ?w1"
    by (cases d) (simp add: append_world_def world0_def)
  with second first show ?thesis
    by (simp add: append_world_def store0_def)
qed

end
